theory Spec2Isabelle
  imports Main "HOL-Library.Sublist"
begin

section \<open>Strings\<close>

text \<open>
  Python strings are modelled as \<^typ>\<open>string\<close>, one \<^typ>\<open>char\<close> per code point; the
  model covers the code points below 256. \<open>str.strip()\<close> removes, at both ends, the
  characters for which \<open>str.isspace\<close> holds: in that range these are the twelve below.
\<close>

definition is_space :: "char \<Rightarrow> bool" where
  "is_space c \<longleftrightarrow> c \<in> set [CHR 0x09, CHR 0x0A, CHR 0x0B, CHR 0x0C, CHR 0x0D,
     CHR 0x1C, CHR 0x1D, CHR 0x1E, CHR 0x1F, CHR 0x20, CHR 0x85, CHR 0xA0]"

definition strip :: "string \<Rightarrow> string" where
  "strip s = rev (dropWhile is_space (rev (dropWhile is_space s)))"

section \<open>URL Parser (\<open>parse_github_url\<close>, both variants)\<close>

text \<open>
  The two patterns are
  \<^verbatim>\<open>github\.com/([^/]+)/([^/]+?)(?:\.git)?/?$\<close> and \<^verbatim>\<open>^([^/]+)/([^/]+)$\<close>,
  tried in this order with \<open>re.search\<close> on the stripped input. Each regular-expression
  construct is a function on the text that remains to be matched.
\<close>

definition not_slash :: "char \<Rightarrow> bool" where
  "not_slash c \<longleftrightarrow> c \<noteq> CHR ''/''"

text \<open>\<open>$\<close> without \<open>re.MULTILINE\<close>: the end of the text, or just before a final newline.\<close>

definition dollar :: "string \<Rightarrow> bool" where
  "dollar r \<longleftrightarrow> r = [] \<or> r = [CHR 0x0A]"

text \<open>\<open>/?$\<close>: the slash is taken when it is there, and given back when \<open>$\<close> then fails.\<close>

definition opt_slash_dollar :: "string \<Rightarrow> bool" where
  "opt_slash_dollar r \<longleftrightarrow>
     (case r of c # cs \<Rightarrow> (c = CHR ''/'' \<and> dollar cs) \<or> dollar r | [] \<Rightarrow> dollar r)"

text \<open>\<open>(?:\.git)?/?$\<close>: the suffix is taken when it is there, and given back when the rest fails.\<close>

definition tail_ok :: "string \<Rightarrow> bool" where
  "tail_ok r \<longleftrightarrow> (prefix ''.git'' r \<and> opt_slash_dollar (drop 4 r)) \<or> opt_slash_dollar r"

text \<open>
  \<open>([^/]+?)(?:\.git)?/?$\<close>: the lazy group starts with one character and grows by one
  character at a time; \<open>acc\<close> is what it holds so far. It stops growing at the first
  length at which the rest of the pattern matches, and fails at a slash or at the end.
\<close>

fun lazy_name :: "string \<Rightarrow> string \<Rightarrow> string option" where
  "lazy_name acc [] = (if acc \<noteq> [] \<and> tail_ok [] then Some acc else None)"
| "lazy_name acc (c # cs) =
     (if acc \<noteq> [] \<and> tail_ok (c # cs) then Some acc
      else if c = CHR ''/'' then None
      else lazy_name (acc @ [c]) cs)"

text \<open>
  \<open>([^/]+)/\<close> followed by the rest: the greedy group takes the whole run of non-slash
  characters; every shorter run is followed by a non-slash character, so backtracking
  into the group never finds the slash.
\<close>

definition match_owner_name :: "string \<Rightarrow> (string \<times> string) option" where
  "match_owner_name r =
     (let g1 = takeWhile not_slash r in
      if g1 = [] then None
      else case dropWhile not_slash r of
             [] \<Rightarrow> None
           | _ # r2 \<Rightarrow> (case lazy_name [] r2 of None \<Rightarrow> None | Some g2 \<Rightarrow> Some (g1, g2)))"

text \<open>The first pattern, matched at the start of the given text.\<close>

definition match1_at :: "string \<Rightarrow> (string \<times> string) option" where
  "match1_at s =
     (if prefix ''github.com/'' s then match_owner_name (drop 11 s) else None)"

text \<open>\<open>re.search\<close>: the leftmost start position at which the pattern matches.\<close>

fun search1 :: "string \<Rightarrow> (string \<times> string) option" where
  "search1 [] = match1_at []"
| "search1 (c # cs) =
     (case match1_at (c # cs) of Some r \<Rightarrow> Some r | None \<Rightarrow> search1 cs)"

text \<open>
  The second pattern. \<open>^\<close> matches at position 0 only, so the search is one attempt.
  The greedy second group takes the whole run of non-slash characters; a shorter run is
  followed by a character of the run and then, since \<open>$\<close> failed after the whole run,
  by a slash, so \<open>$\<close> fails there too.
\<close>

definition search2 :: "string \<Rightarrow> (string \<times> string) option" where
  "search2 s =
     (let g1 = takeWhile not_slash s in
      if g1 = [] then None
      else case dropWhile not_slash s of
             [] \<Rightarrow> None
           | _ # r2 \<Rightarrow>
               (let g2 = takeWhile not_slash r2 in
                if g2 \<noteq> [] \<and> dollar (dropWhile not_slash r2) then Some (g1, g2) else None))"

text \<open>
  \<open>parse_github_url\<close> returns a pair; \<open>None\<close> is Python's \<open>None\<close>, so the not-found
  pair is \<open>(None, None)\<close>.
\<close>

definition patterns :: "(string \<Rightarrow> (string \<times> string) option) list" where
  "patterns = [search1, search2]"

fun first_match :: "(string \<Rightarrow> (string \<times> string) option) list \<Rightarrow> string
    \<Rightarrow> string option \<times> string option" where
  "first_match [] url = (None, None)"
| "first_match (pattern # ps) url =
     (case pattern url of Some (g1, g2) \<Rightarrow> (Some g1, Some g2) | None \<Rightarrow> first_match ps url)"

definition parse_github_url :: "string \<Rightarrow> string option \<times> string option" where
  "parse_github_url url = first_match patterns (strip url)"

text \<open>Python's truth value of an optional string: \<open>None\<close> and \<open>""\<close> are false.\<close>

definition truthy :: "string option \<Rightarrow> bool" where
  "truthy x \<longleftrightarrow> (case x of None \<Rightarrow> False | Some s \<Rightarrow> s \<noteq> [])"


subsection \<open>The reference forms the parser is compared with\<close>

text \<open>
  A path segment is a non-empty text without a slash. \<open>full_form t ow n\<close> says that the
  trimmed text \<open>t\<close> ends with \<open>github.com/ow/n\<close>, then an optional \<open>.git\<close>, then an
  optional slash; a final \<open>.git\<close> that leaves a non-empty name always counts as the
  suffix. \<open>bare_form t ow n\<close> says that \<open>t\<close> is exactly \<open>ow/n\<close>.
\<close>

definition seg :: "string \<Rightarrow> bool" where
  "seg x \<longleftrightarrow> x \<noteq> [] \<and> CHR ''/'' \<notin> set x"

definition git_suffixed :: "string \<Rightarrow> bool" where
  "git_suffixed n \<longleftrightarrow> 4 < length n \<and> suffix ''.git'' n"

definition full_form :: "string \<Rightarrow> string \<Rightarrow> string \<Rightarrow> bool" where
  "full_form t ow n \<longleftrightarrow> seg ow \<and> seg n \<and>
     (\<exists>p git slash. t = p @ ''github.com/'' @ ow @ ''/'' @ n @ git @ slash \<and>
        (slash = [] \<or> slash = ''/'') \<and>
        (git = ''.git'' \<or> (git = [] \<and> \<not> git_suffixed n)))"

definition bare_form :: "string \<Rightarrow> string \<Rightarrow> string \<Rightarrow> bool" where
  "bare_form t ow n \<longleftrightarrow> seg ow \<and> seg n \<and> t = ow @ ''/'' @ n"

definition clean :: "string \<Rightarrow> bool" where
  "clean t \<longleftrightarrow> t = [] \<or> last t \<noteq> CHR 0x0A"

section \<open>Exceptions, actions and the world\<close>

text \<open>
  Exceptions are values; each carries the text \<open>str(e)\<close> gives. \<open>Exception\<close> is the
  plain exception \<open>clone_repo\<close> raises, \<open>TimeoutExpired\<close> and \<open>OSError\<close> come from
  \<open>subprocess.run\<close> and \<open>shutil.rmtree\<close>, \<open>EngineError\<close> from the assistant SDK.
\<close>

datatype exn = Exception string | TimeoutExpired string | OSError string | EngineError string

fun str :: "exn \<Rightarrow> string" where
  "str (Exception m) = m"
| "str (TimeoutExpired m) = m"
| "str (OSError m) = m"
| "str (EngineError m) = m"

type_synonym path = string

text \<open>
  What the program does to the outside, in order: the subprocesses it starts, the
  directory operations, the sleeps, the calls on the SDK client and session, and the
  console messages that mark a failed cleanup attempt (\<open>Warn k\<close>, "Cleanup attempt k
  failed"), the giving up (\<open>GaveUp\<close>, "Could not fully clean up") and the start and end
  of \<open>cleanup_repo\<close>'s work (\<open>CleaningUp\<close>, \<open>CleanupComplete\<close>).
\<close>

datatype action =
    Makedirs path
  | GitGc path
  | Rmtree path
  | Warn nat
  | Sleep nat
  | GaveUp path
  | GitClone string path
  | GitRestore path
  | CleaningUp path
  | CleanupComplete
  | ClientStart
  | CreateSession string
  | On
  | Send string
  | Wait
  | SessionDestroy
  | ClientStop

text \<open>
  The world: \<open>present\<close> holds the paths for which \<open>os.path.exists\<close> is true; \<open>app_dir\<close>
  is the directory of the application file; \<open>trace\<close> is the list of actions so far.
  What the environment decides is scripted: \<open>gc_script\<close>, \<open>rm_script\<close>,
  \<open>makedirs_script\<close> and \<open>restore_script\<close> give, call by call, the exception the next
  \<open>git gc\<close>, \<open>shutil.rmtree\<close>, \<open>os.makedirs\<close> and \<open>git restore\<close> raise (\<open>None\<close>: the
  call returns); \<open>clone_script\<close> gives for the next \<open>git clone\<close> either the exception
  \<open>subprocess.run\<close> raises (the process cannot be started) or, when the process runs to
  its end, its standard error text and whether it leaves the target directory in place.
  An exhausted script means success.
\<close>

record world =
  present :: "path set"
  app_dir :: path
  gc_script :: "exn option list"
  rm_script :: "exn option list"
  makedirs_script :: "exn option list"
  clone_script :: "(exn + string \<times> bool) list"
  restore_script :: "exn option list"
  trace :: "action list"

definition emit :: "action \<Rightarrow> world \<Rightarrow> world" where
  "emit a w = w\<lparr>trace := trace w @ [a]\<rparr>"

text \<open>\<open>os.path.join\<close> (POSIX) of two components.\<close>

definition path_join :: "path \<Rightarrow> path \<Rightarrow> path" where
  "path_join a b =
     (if b \<noteq> [] \<and> hd b = CHR ''/'' then b
      else if a = [] \<or> last a = CHR ''/'' then a @ b
      else a @ ''/'' @ b)"

definition TEMP_REPOS_DIR :: "world \<Rightarrow> path" where
  "TEMP_REPOS_DIR w = path_join (app_dir w) ''temp_repos''"

section \<open>Workspace Reaper (\<open>safe_rmtree\<close>)\<close>

text \<open>\<open>under p q\<close>: \<open>q\<close> is \<open>p\<close> or lies below it; a successful \<open>rmtree p\<close> removes these.\<close>

definition under :: "path \<Rightarrow> path \<Rightarrow> bool" where
  "under p q \<longleftrightarrow> q = p \<or> prefix (p @ ''/'') q"

text \<open>
  \<open>subprocess.run(["git", "-C", path, "gc", "--prune=now"], capture_output=True,
  timeout=10)\<close>: no \<open>check=True\<close>, so a failing \<open>git gc\<close> returns; the call raises when
  the timeout expires or the process cannot be started.
\<close>

definition git_gc :: "path \<Rightarrow> world \<Rightarrow> exn option \<times> world" where
  "git_gc p w =
     (case gc_script w of
        [] \<Rightarrow> (None, emit (GitGc p) w)
      | r # rs \<Rightarrow> (r, emit (GitGc p) (w\<lparr>gc_script := rs\<rparr>)))"

text \<open>
  \<open>shutil.rmtree(path, onerror=remove_readonly)\<close>: the handler clears the read-only bit
  and repeats the failed operation; what it cannot remove raises out of \<open>rmtree\<close>. A
  removal that raises is modelled as leaving the tree in place.
\<close>

definition rmtree :: "path \<Rightarrow> world \<Rightarrow> exn option \<times> world" where
  "rmtree p w =
     (case rm_script w of
        [] \<Rightarrow> (None, emit (Rmtree p) (w\<lparr>present := {q \<in> present w. \<not> under p q}\<rparr>))
      | None # rs \<Rightarrow>
          (None, emit (Rmtree p) (w\<lparr>rm_script := rs, present := {q \<in> present w. \<not> under p q}\<rparr>))
      | Some e # rs \<Rightarrow> (Some e, emit (Rmtree p) (w\<lparr>rm_script := rs\<rparr>)))"

text \<open>The body of the \<open>try\<close> up to \<open>return True\<close>; \<open>Some e\<close> is the exception it raises.\<close>

definition try_remove :: "path \<Rightarrow> world \<Rightarrow> exn option \<times> world" where
  "try_remove p w =
     (if p \<in> present w then
        (let git_dir = path_join p ''.git'' in
         if git_dir \<in> present w then
           (case git_gc p w of
              (Some e, w1) \<Rightarrow> (Some e, w1)
            | (None, w1) \<Rightarrow> rmtree p w1)
         else rmtree p w)
      else (None, w))"

text \<open>
  \<open>for attempt in range(retries)\<close>: the list holds the attempt numbers still to run.
  \<open>except Exception\<close> catches whatever the body raises, prints the warning and sleeps
  one second unless this was the last attempt. After the loop: the final message and
  \<open>False\<close>.
\<close>

fun attempts :: "nat list \<Rightarrow> nat \<Rightarrow> path \<Rightarrow> world \<Rightarrow> bool \<times> world" where
  "attempts [] retries p w = (False, emit (GaveUp p) w)"
| "attempts (attempt # rest) retries p w =
     (case try_remove p w of
        (None, w1) \<Rightarrow> (True, w1)
      | (Some e, w1) \<Rightarrow>
          (let w2 = emit (Warn (attempt + 1)) w1;
               w3 = (if int attempt < int retries - 1 then emit (Sleep 1) w2 else w2)
           in attempts rest retries p w3))"

definition safe_rmtree_n :: "path \<Rightarrow> nat \<Rightarrow> world \<Rightarrow> bool \<times> world" where
  "safe_rmtree_n p retries w = attempts [0..<retries] retries p w"

text \<open>Every call in the program uses the default \<open>retries = 3\<close>.\<close>

definition safe_rmtree :: "path \<Rightarrow> world \<Rightarrow> bool \<times> world" where
  "safe_rmtree p w = safe_rmtree_n p 3 w"

text \<open>The actions a run added to the trace.\<close>

definition added :: "world \<Rightarrow> world \<Rightarrow> action list" where
  "added w w' = drop (length (trace w)) (trace w')"

definition is_attempt_mark :: "action \<Rightarrow> bool" where
  "is_attempt_mark a \<longleftrightarrow> (case a of Warn _ \<Rightarrow> True | Sleep _ \<Rightarrow> True | GaveUp _ \<Rightarrow> True | _ \<Rightarrow> False)"

definition is_removal :: "action \<Rightarrow> bool" where
  "is_removal a \<longleftrightarrow> (case a of Rmtree _ \<Rightarrow> True | _ \<Rightarrow> False)"

section \<open>Repository Acquirer (\<open>clone_repo\<close>) and \<open>cleanup_repo\<close>\<close>

text \<open>\<open>str.lower()\<close> on the code points below 256.\<close>

definition lower_char :: "char \<Rightarrow> char" where
  "lower_char c =
     (let k = (of_char c :: nat) in
      if (65 \<le> k \<and> k \<le> 90) \<or> (192 \<le> k \<and> k \<le> 222 \<and> k \<noteq> 215) then char_of (k + 32) else c)"

definition lower :: "string \<Rightarrow> string" where
  "lower s = map lower_char s"

text \<open>\<open>"checkout failed" in result.stderr.lower()\<close>\<close>

definition checkout_failed :: "string \<Rightarrow> bool" where
  "checkout_failed stderr \<longleftrightarrow> sublist ''checkout failed'' (lower stderr)"

text \<open>
  \<open>os.makedirs(TEMP_REPOS_DIR, exist_ok=True)\<close>: it may raise (\<open>PermissionError\<close> and
  other \<open>OSError\<close>s); \<open>clone_repo\<close> calls it outside any \<open>try\<close>.
\<close>

definition makedirs :: "path \<Rightarrow> world \<Rightarrow> exn option \<times> world" where
  "makedirs p w =
     (case makedirs_script w of
        [] \<Rightarrow> (None, emit (Makedirs p) (w\<lparr>present := insert p (present w)\<rparr>))
      | None # rs \<Rightarrow>
          (None, emit (Makedirs p) (w\<lparr>makedirs_script := rs, present := insert p (present w)\<rparr>))
      | Some e # rs \<Rightarrow> (Some e, emit (Makedirs p) (w\<lparr>makedirs_script := rs\<rparr>)))"

text \<open>
  \<open>subprocess.run(["git", "clone", "--depth", "1", "--single-branch", "--no-tags", "-c",
  "core.longpaths=true", clone_url, repo_path], capture_output=True, text=True)\<close>,
  outside any \<open>try\<close>. Without \<open>check=True\<close> a failing clone returns, and the call gives
  its standard error text; the call itself raises when the process cannot be started
  (\<open>FileNotFoundError\<close> when there is no \<open>git\<close>). A clone that leaves the target directory
  in place leaves its \<open>.git\<close> directory too.
\<close>

definition git_clone :: "string \<Rightarrow> path \<Rightarrow> world \<Rightarrow> (exn + string) \<times> world" where
  "git_clone url p w =
     (let w1 = emit (GitClone url p) (w\<lparr>clone_script := drop 1 (clone_script w)\<rparr>) in
      case (case clone_script w of [] \<Rightarrow> Inr ([], True) | r # _ \<Rightarrow> r) of
        Inl e \<Rightarrow> (Inl e, w1)
      | Inr (stderr, created) \<Rightarrow>
          (Inr stderr,
           if created
           then w1\<lparr>present := insert p (insert (path_join p ''.git'') (present w))\<rparr>
           else w1))"

text \<open>
  \<open>subprocess.run(["git", "-C", repo_path, "restore", "--source=HEAD", ":/"], ...)\<close>,
  outside any \<open>try\<close>: the result of the process is not looked at, but the call raises
  when the process cannot be started.
\<close>

definition git_restore :: "path \<Rightarrow> world \<Rightarrow> exn option \<times> world" where
  "git_restore p w =
     (case restore_script w of
        [] \<Rightarrow> (None, emit (GitRestore p) w)
      | r # rs \<Rightarrow> (r, emit (GitRestore p) (w\<lparr>restore_script := rs\<rparr>)))"

definition repo_path_of :: "world \<Rightarrow> string \<Rightarrow> path" where
  "repo_path_of w repo = path_join (TEMP_REPOS_DIR w) (take 20 repo)"

definition clone_url_of :: "string \<Rightarrow> string \<Rightarrow> string" where
  "clone_url_of owner repo = ''https://github.com/'' @ owner @ ''/'' @ repo @ ''.git''"

text \<open>
  The first part of \<open>clone_repo\<close>, up to the end of the \<open>git clone\<close> call: \<open>Inr\<close> the
  standard error text of the clone process with the world right after it has ended, or
  \<open>Inl\<close> the exception \<open>os.makedirs\<close> or the start of the process raised. The result of
  \<open>safe_rmtree\<close> is not looked at.
\<close>

definition clone_attempt :: "string \<Rightarrow> string \<Rightarrow> world \<Rightarrow> (exn + string) \<times> world" where
  "clone_attempt owner repo w =
     (case makedirs (TEMP_REPOS_DIR w) w of
        (Some e, w1) \<Rightarrow> (Inl e, w1)
      | (None, w1) \<Rightarrow>
          (let repo_path = repo_path_of w repo;
               w2 = (if repo_path \<in> present w1 then snd (safe_rmtree repo_path w1) else w1)
           in git_clone (clone_url_of owner repo) repo_path w2))"

text \<open>
  An exception of \<open>os.makedirs\<close> or of a \<open>subprocess.run\<close> leaves \<open>clone_repo\<close> as it is;
  the clone failure is the plain \<open>Exception\<close> raised when the directory is not there.
\<close>

definition clone_repo :: "string \<Rightarrow> string \<Rightarrow> world \<Rightarrow> (exn + path) \<times> world" where
  "clone_repo owner repo w =
     (let repo_path = repo_path_of w repo in
      case clone_attempt owner repo w of
        (Inl e, w3) \<Rightarrow> (Inl e, w3)
      | (Inr stderr, w3) \<Rightarrow>
          if repo_path \<notin> present w3
          then (Inl (Exception (''Failed to clone repository: '' @ stderr)), w3)
          else if checkout_failed stderr
          then (case git_restore repo_path w3 of
                  (Some e, w4) \<Rightarrow> (Inl e, w4)
                | (None, w4) \<Rightarrow> (Inr repo_path, w4))
          else (Inr repo_path, w3))"

text \<open>\<open>if repo_path and os.path.exists(repo_path)\<close>\<close>

definition cleanup_repo :: "path option \<Rightarrow> world \<Rightarrow> world" where
  "cleanup_repo repo_path w =
     (case repo_path of
        None \<Rightarrow> w
      | Some p \<Rightarrow>
          if p \<noteq> [] \<and> p \<in> present w
          then emit CleanupComplete (snd (safe_rmtree p (emit (CleaningUp p) w)))
          else w)"

section \<open>Session events and the event handler (\<open>handle_event\<close>, both variants)\<close>

text \<open>
  The five event kinds the handler tells apart, with the fields it reads, and any other
  kind. \<open>delta_content\<close> and the tool result may be \<open>None\<close>; \<open>tool_call_id\<close> of a start
  event is read with \<open>getattr(..., None)\<close>.
\<close>

datatype event =
    AssistantMessage string
  | AssistantMessageDelta "string option"
  | ToolExecutionStart string "string option"
  | ToolExecutionComplete string "string option"
  | SessionIdle
  | OtherEvent string

text \<open>The records appended to \<open>events_log\<close>: their \<open>type\<close> and their other fields.\<close>

datatype log_record =
    Message_delta string
  | Tool_start string "string option"
  | Tool_complete string "string option"

text \<open>
  The state the closure works on: the \<open>asyncio.Event\<close> \<open>done\<close> (whether it is set) and the
  two lists.
\<close>

record handler_state =
  done_is_set :: bool
  response_content :: "string list"
  events_log :: "log_record list"

definition initial_state :: handler_state where
  "initial_state = \<lparr>done_is_set = False, response_content = [], events_log = []\<rparr>"

text \<open>
  The two variants differ in what they print, not in what they store. \<open>done.set()\<close> sets
  the flag whether or not it was set before.
\<close>

fun handle_event :: "event \<Rightarrow> handler_state \<Rightarrow> handler_state" where
  "handle_event (AssistantMessage content) st =
     st\<lparr>response_content := response_content st @ [content]\<rparr>"
| "handle_event (AssistantMessageDelta delta_content) st =
     (let delta = (case delta_content of None \<Rightarrow> [] | Some d \<Rightarrow> d) in
      if delta \<noteq> [] then st\<lparr>events_log := events_log st @ [Message_delta delta]\<rparr> else st)"
| "handle_event (ToolExecutionStart tool_name tool_call_id) st =
     st\<lparr>events_log := events_log st @ [Tool_start tool_name tool_call_id]\<rparr>"
| "handle_event (ToolExecutionComplete tool_call_id result) st =
     st\<lparr>events_log := events_log st @ [Tool_complete tool_call_id result]\<rparr>"
| "handle_event SessionIdle st = st\<lparr>done_is_set := True\<rparr>"
| "handle_event (OtherEvent _) st = st"

text \<open>The events of a run, handled in the order of their arrival.\<close>

fun handle_all :: "handler_state \<Rightarrow> event list \<Rightarrow> handler_state" where
  "handle_all st [] = st"
| "handle_all st (ev # evs) = handle_all (handle_event ev st) evs"

text \<open>The record an event leaves in the log, or none; and the final message it carries.\<close>

fun logged :: "event \<Rightarrow> log_record option" where
  "logged (AssistantMessageDelta (Some d)) = (if d \<noteq> [] then Some (Message_delta d) else None)"
| "logged (ToolExecutionStart tool_name tool_call_id) = Some (Tool_start tool_name tool_call_id)"
| "logged (ToolExecutionComplete tool_call_id result) = Some (Tool_complete tool_call_id result)"
| "logged _ = None"

fun final_message :: "event \<Rightarrow> string option" where
  "final_message (AssistantMessage content) = Some content"
| "final_message _ = None"

text \<open>\<open>"\n".join(xs)\<close>\<close>

fun join_nl :: "string list \<Rightarrow> string" where
  "join_nl [] = []"
| "join_nl [x] = x"
| "join_nl (x # y # ys) = x @ ''\<newline>'' @ join_nl (y # ys)"

section \<open>Instruction templates (\<open>analysis_prompts\<close>)\<close>

text \<open>
  Each template is the list of its pieces, one source line per row; \<open>owner\<close>, \<open>repo\<close> and
  \<open>repo_path\<close> are the interpolated values. The templates of \<open>advanced_app.py\<close> come
  first, those of \<open>app.py\<close> carry the suffix \<open>_app\<close>.
\<close>

definition overview_prompt :: "string \<Rightarrow> string \<Rightarrow> string \<Rightarrow> string" where
  "overview_prompt owner repo repo_path = concat
    [''You are a helpful assistant that analyzes code repositories.\<newline>'',
     ''\<newline>'',
     ''I have cloned the GitHub repository '', owner, ''/'', repo, '' to a local folder at: '', repo_path, ''\<newline>'',
     ''\<newline>'',
     ''Please analyze this LOCAL repository by reading files and exploring the directory structure.\<newline>'',
     ''\<newline>'',
     ''Use file system tools (read_file, list_dir, grep_search, semantic_search) to explore the cloned repository.\<newline>'',
     ''\<newline>'',
     ''Provide a comprehensive overview including:\<newline>'',
     ''1. **Repository Information**: Name, description, primary language, what the project does (read the README.md)\<newline>'',
     ''2. **Structure Overview**: List the directories and explain their purposes\<newline>'',
     ''3. **Key Files**: Read important files like README.md, package.json, requirements.txt, etc.\<newline>'',
     ''4. **Technology Stack**: Languages, frameworks, and tools used (based on config files)\<newline>'',
     ''5. **Project Type**: What kind of project this is (web app, library, CLI, etc.)\<newline>'',
     ''\<newline>'',
     ''Start by listing the contents of '', repo_path, '' and then read the key files.'']"

definition structure_prompt :: "string \<Rightarrow> string \<Rightarrow> string \<Rightarrow> string" where
  "structure_prompt owner repo repo_path = concat
    [''You are a helpful assistant that analyzes code repositories.\<newline>'',
     ''\<newline>'',
     ''I have cloned the GitHub repository '', owner, ''/'', repo, '' to a local folder at: '', repo_path, ''\<newline>'',
     ''\<newline>'',
     ''Please analyze the file structure of this LOCAL repository using file system tools.\<newline>'',
     ''\<newline>'',
     ''Use list_dir to explore directories and read_file to examine key files.\<newline>'',
     ''\<newline>'',
     ''1. List ALL directories and files, explaining their purposes\<newline>'',
     ''2. Identify the project type (web app, library, CLI tool, etc.)\<newline>'',
     ''3. Find and read configuration files, explain what they configure\<newline>'',
     ''4. Identify entry points and main source files\<newline>'',
     ''\<newline>'',
     ''Start by listing the contents of '', repo_path]"

definition diagram_prompt :: "string \<Rightarrow> string \<Rightarrow> string \<Rightarrow> string" where
  "diagram_prompt owner repo repo_path = concat
    [''You are a helpful assistant that analyzes code repositories and creates Mermaid diagrams.\<newline>'',
     ''\<newline>'',
     ''I have cloned the GitHub repository '', owner, ''/'', repo, '' to a local folder at: '', repo_path, ''\<newline>'',
     ''\<newline>'',
     ''Please analyze this LOCAL repository using file system tools (read_file, list_dir, grep_search).\<newline>'',
     ''\<newline>'',
     ''Your task:\<newline>'',
     ''1. Explore the directory structure using list_dir\<newline>'',
     ''2. Read key files to understand the architecture (README.md, main source files, config files)\<newline>'',
     ''3. Based on your analysis, create a Mermaid flow diagram\<newline>'',
     ''\<newline>'',
     ''CRITICAL MERMAID SYNTAX RULES:\<newline>'',
     ''- Each node definition MUST be on a SINGLE LINE\<newline>'',
     ''- Node labels should be SHORT (1-5 words max)\<newline>'',
     ''- Do NOT put newlines inside square brackets []\<newline>'',
     ''- Use simple IDs like A, B, C or short names like React, DOM, etc.\<newline>'',
     ''- If you need line breaks in labels, use <br> tag, NOT actual newlines\<newline>'',
     ''\<newline>'',
     ''Output a Mermaid diagram using EXACTLY this format:\<newline>'',
     ''```mermaid\<newline>'',
     ''graph TD\<newline>'',
     ''    A[Short Label] --> B[Another Label]\<newline>'',
     ''    B --> C[Third Label]\<newline>'',
     ''    C --> D[Fourth Label]\<newline>'',
     ''```\<newline>'',
     ''\<newline>'',
     ''CORRECT example:\<newline>'',
     ''```mermaid\<newline>'',
     ''graph TD\<newline>'',
     ''    A[React Core] --> B[Reconciler]\<newline>'',
     ''    B --> C[React DOM]\<newline>'',
     ''    B --> D[React Native]\<newline>'',
     ''```\<newline>'',
     ''\<newline>'',
     ''WRONG example (DO NOT DO THIS):\<newline>'',
     ''```mermaid\<newline>'',
     ''graph TD\<newline>'',
     ''    A[React Core\<newline>'',
     ''    Package] --> B[Reconciler]\<newline>'',
     ''```\<newline>'',
     ''\<newline>'',
     ''Keep node labels concise. Use actual component/directory names from '', owner, ''/'', repo, ''.\<newline>'',
     ''Start by listing the contents of '', repo_path]"

definition dependencies_prompt :: "string \<Rightarrow> string \<Rightarrow> string \<Rightarrow> string" where
  "dependencies_prompt owner repo repo_path = concat
    [''You are a helpful assistant that analyzes code repositories.\<newline>'',
     ''\<newline>'',
     ''I have cloned the GitHub repository '', owner, ''/'', repo, '' to a local folder at: '', repo_path, ''\<newline>'',
     ''\<newline>'',
     ''Please analyze the dependencies of this LOCAL repository using file system tools.\<newline>'',
     ''\<newline>'',
     ''Use read_file to examine dependency files and grep_search to find imports.\<newline>'',
     ''\<newline>'',
     ''1. Find and READ all dependency files (package.json, requirements.txt, Cargo.toml, go.mod, etc.)\<newline>'',
     ''2. List the main dependencies and their purposes\<newline>'',
     ''3. Identify any development dependencies\<newline>'',
     ''4. Summarize the technology stack\<newline>'',
     ''\<newline>'',
     ''Start by listing the contents of '', repo_path, '' to find dependency files.'']"

definition overview_prompt_app :: "string \<Rightarrow> string \<Rightarrow> string" where
  "overview_prompt_app owner repo = concat
    [''You are a helpful assistant that analyzes GitHub repositories.\<newline>'',
     ''\<newline>'',
     ''Please analyze the GitHub repository: https://github.com/'', owner, ''/'', repo, ''\<newline>'',
     ''\<newline>'',
     ''Provide a comprehensive overview including:\<newline>'',
     ''1. **Repository Information**: Name, description, primary language, what the project does\<newline>'',
     ''2. **Structure Overview**: Main directories and their purposes based on common conventions\<newline>'',
     ''3. **Key Files**: Important files like README, package.json, requirements.txt, etc.\<newline>'',
     ''4. **Technology Stack**: Languages, frameworks, and tools likely used\<newline>'',
     ''5. **Project Type**: What kind of project this is (web app, library, CLI, etc.)\<newline>'',
     ''\<newline>'',
     ''Fetch and analyze the repository information to provide accurate details.'']"

definition structure_prompt_app :: "string \<Rightarrow> string \<Rightarrow> string" where
  "structure_prompt_app owner repo = concat
    [''You are a helpful assistant that analyzes GitHub repositories.\<newline>'',
     ''\<newline>'',
     ''Please analyze the file structure of: https://github.com/'', owner, ''/'', repo, ''\<newline>'',
     ''\<newline>'',
     ''1. List the main directories and explain their purposes\<newline>'',
     ''2. Identify the project type (web app, library, CLI tool, etc.)\<newline>'',
     ''3. Find configuration files and explain what they configure\<newline>'',
     ''4. Identify entry points and main source files\<newline>'',
     ''\<newline>'',
     ''Browse the repository to understand its structure.'']"

definition diagram_prompt_app :: "string \<Rightarrow> string \<Rightarrow> string" where
  "diagram_prompt_app owner repo = concat
    [''You are a helpful assistant that analyzes GitHub repositories and creates Mermaid diagrams.\<newline>'',
     ''\<newline>'',
     ''IMPORTANT: Do NOT analyze any local files or the current working directory.\<newline>'',
     ''ONLY analyze the remote GitHub repository at this URL: https://github.com/'', owner, ''/'', repo, ''\<newline>'',
     ''\<newline>'',
     ''Your task:\<newline>'',
     ''1. Fetch information about the GitHub repository '', owner, ''/'', repo, '' from the web\<newline>'',
     ''2. Based on the repository's README, file structure, and code organization, create a Mermaid flow diagram\<newline>'',
     ''\<newline>'',
     ''The diagram should show:\<newline>'',
     ''- The overall architecture/structure of the project\<newline>'',
     ''- How different components/modules relate to each other\<newline>'',
     ''- Data flow or dependency relationships between parts\<newline>'',
     ''\<newline>'',
     ''Output a Mermaid diagram using this format:\<newline>'',
     ''```mermaid\<newline>'',
     ''graph TD\<newline>'',
     ''    A[Component A] --> B[Component B]\<newline>'',
     ''    B --> C[Component C]\<newline>'',
     ''```\<newline>'',
     ''\<newline>'',
     ''Use actual component names, directories, or module names from the '', owner, ''/'', repo, '' repository.\<newline>'',
     ''Do NOT reference any local files - only use information from the GitHub repository.'']"

definition dependencies_prompt_app :: "string \<Rightarrow> string \<Rightarrow> string" where
  "dependencies_prompt_app owner repo = concat
    [''You are a helpful assistant that analyzes GitHub repositories.\<newline>'',
     ''\<newline>'',
     ''Please analyze the dependencies of: https://github.com/'', owner, ''/'', repo, ''\<newline>'',
     ''\<newline>'',
     ''1. Find all dependency files (package.json, requirements.txt, Cargo.toml, go.mod, etc.)\<newline>'',
     ''2. List the main dependencies and their purposes\<newline>'',
     ''3. Identify any development dependencies\<newline>'',
     ''4. Summarize the technology stack\<newline>'',
     ''\<newline>'',
     ''Fetch the dependency information from the repository.'']"


definition analysis_prompts :: "string \<Rightarrow> string \<Rightarrow> string \<Rightarrow> (string \<times> string) list" where
  "analysis_prompts owner repo repo_path =
     [(''overview'', overview_prompt owner repo repo_path),
      (''structure'', structure_prompt owner repo repo_path),
      (''diagram'', diagram_prompt owner repo repo_path),
      (''dependencies'', dependencies_prompt owner repo repo_path)]"

definition analysis_prompts_app :: "string \<Rightarrow> string \<Rightarrow> (string \<times> string) list" where
  "analysis_prompts_app owner repo =
     [(''overview'', overview_prompt_app owner repo),
      (''structure'', structure_prompt_app owner repo),
      (''diagram'', diagram_prompt_app owner repo),
      (''dependencies'', dependencies_prompt_app owner repo)]"

text \<open>\<open>analysis_prompts.get(analysis_type, analysis_prompts["overview"])\<close>\<close>

definition get_prompt :: "(string \<times> string) list \<Rightarrow> string \<Rightarrow> string \<Rightarrow> string" where
  "get_prompt prompts analysis_type fallback =
     (case map_of prompts analysis_type of Some p \<Rightarrow> p | None \<Rightarrow> fallback)"

section \<open>Session Orchestrator (\<open>analyze_github_repo\<close>)\<close>

text \<open>
  The assistant engine is outside the program. Its part in one run is scripted: for each
  awaited call the exception it raises (\<open>None\<close>: the call returns), and the events it
  delivers to the registered handler before the session is destroyed.
\<close>

record engine =
  start_raises :: "exn option"
  create_raises :: "exn option"
  send_raises :: "exn option"
  events :: "event list"
  wait_raises :: "exn option"
  destroy_raises :: "exn option"
  stop_raises :: "exn option"

text \<open>
  How a coroutine ends: it returns a value, it raises, or it never ends (\<open>done.wait()\<close>
  has no timeout, so a session without an idle event is awaited forever).
\<close>

datatype 'a outcome = Returns 'a | Raises exn | Hangs

datatype json = JStr string | JLog "log_record list"

type_synonym payload = "(string \<times> json) list"

definition invalid_url_result :: payload where
  "invalid_url_result =
     [(''response'', JStr ''Invalid GitHub URL. Please use format: https://github.com/owner/repo''),
      (''events'', JLog [])]"

definition clone_failed_result :: "exn \<Rightarrow> payload" where
  "clone_failed_result e =
     [(''response'', JStr (''Failed to clone repository: '' @ str e)),
      (''events'', JLog [])]"

definition response_text :: "handler_state \<Rightarrow> string" where
  "response_text st =
     (if response_content st \<noteq> [] then join_nl (response_content st)
      else ''No response received.'')"

definition final_result :: "handler_state \<Rightarrow> string \<Rightarrow> string \<Rightarrow> payload" where
  "final_result st owner repo =
     [(''response'', JStr (response_text st)),
      (''events'', JLog (events_log st)),
      (''owner'', JStr owner),
      (''repo'', JStr repo)]"

text \<open>The text an f-string puts in for an optional string.\<close>

definition text_of :: "string option \<Rightarrow> string" where
  "text_of x = (case x of None \<Rightarrow> ''None'' | Some s \<Rightarrow> s)"

text \<open>
  \<open>client.start()\<close>, \<open>client.create_session({"model": "gpt-4.1"})\<close>,
  \<open>session.on(handle_event)\<close>: the same three lines in both variants.
\<close>

definition open_session :: "engine \<Rightarrow> world \<Rightarrow> exn option \<times> world" where
  "open_session eng w =
     (let w1 = emit ClientStart w in
      case start_raises eng of
        Some e \<Rightarrow> (Some e, w1)
      | None \<Rightarrow>
          (let w2 = emit (CreateSession ''gpt-4.1'') w1 in
           case create_raises eng of
             Some e \<Rightarrow> (Some e, w2)
           | None \<Rightarrow> (None, emit On w2)))"

text \<open>
  \<open>await session.send({"prompt": prompt})\<close> and \<open>await done.wait()\<close>. The handler runs
  on every event the engine delivers; the wait returns when the flag is set.
\<close>

definition send_and_wait :: "engine \<Rightarrow> string \<Rightarrow> world \<Rightarrow> handler_state outcome \<times> world" where
  "send_and_wait eng prompt w =
     (let w1 = emit (Send prompt) w in
      case send_raises eng of
        Some e \<Rightarrow> (Raises e, w1)
      | None \<Rightarrow>
          (let w2 = emit Wait w1;
               st = handle_all initial_state (events eng)
           in case wait_raises eng of
                Some e \<Rightarrow> (Raises e, w2)
              | None \<Rightarrow> if done_is_set st then (Returns st, w2) else (Hangs, w2)))"

text \<open>\<open>await session.destroy()\<close> and \<open>await client.stop()\<close>\<close>

definition teardown :: "engine \<Rightarrow> world \<Rightarrow> exn option \<times> world" where
  "teardown eng w =
     (let w1 = emit SessionDestroy w in
      case destroy_raises eng of
        Some e \<Rightarrow> (Some e, w1)
      | None \<Rightarrow> (stop_raises eng, emit ClientStop w1))"

text \<open>
  \<open>app.py\<close>: send, wait, destroy and stop follow one another without \<open>try\<close>, so an
  exception of one step leaves the function before the next.
\<close>

definition analyze_github_repo_app ::
    "string \<Rightarrow> string \<Rightarrow> engine \<Rightarrow> world \<Rightarrow> payload outcome \<times> world" where
  "analyze_github_repo_app repo_url analysis_type eng w =
     (let (owner, repo) = parse_github_url repo_url in
      if \<not> truthy owner \<or> \<not> truthy repo then (Returns invalid_url_result, w)
      else
        case open_session eng w of
          (Some e, w1) \<Rightarrow> (Raises e, w1)
        | (None, w1) \<Rightarrow>
            (let prompt = get_prompt (analysis_prompts_app (text_of owner) (text_of repo))
                            analysis_type (overview_prompt_app (text_of owner) (text_of repo))
             in case send_and_wait eng prompt w1 of
                  (Raises e, w2) \<Rightarrow> (Raises e, w2)
                | (Hangs, w2) \<Rightarrow> (Hangs, w2)
                | (Returns st, w2) \<Rightarrow>
                    (case teardown eng w2 of
                       (Some e, w3) \<Rightarrow> (Raises e, w3)
                     | (None, w3) \<Rightarrow>
                         (Returns (final_result st (text_of owner) (text_of repo)), w3))))"

text \<open>
  \<open>advanced_app.py\<close>: the clone comes first, inside \<open>try ... except Exception\<close>; send and
  wait are the body of \<open>try ... finally\<close>, whose \<open>finally\<close> block destroys the session,
  stops the client and calls \<open>cleanup_repo\<close>. An exception raised inside the \<open>finally\<close>
  block ends the block and replaces the pending one.
\<close>

definition analyze_github_repo ::
    "string \<Rightarrow> string \<Rightarrow> engine \<Rightarrow> world \<Rightarrow> payload outcome \<times> world" where
  "analyze_github_repo repo_url analysis_type eng w =
     (let (owner, repo) = parse_github_url repo_url in
      if \<not> truthy owner \<or> \<not> truthy repo then (Returns invalid_url_result, w)
      else
        case clone_repo (text_of owner) (text_of repo) w of
          (Inl e, w0) \<Rightarrow> (Returns (clone_failed_result e), w0)
        | (Inr repo_path, w0) \<Rightarrow>
            (case open_session eng w0 of
               (Some e, w1) \<Rightarrow> (Raises e, w1)
             | (None, w1) \<Rightarrow>
                 (let prompt = get_prompt
                        (analysis_prompts (text_of owner) (text_of repo) repo_path)
                        analysis_type
                        (overview_prompt (text_of owner) (text_of repo) repo_path)
                  in case send_and_wait eng prompt w1 of
                       (Hangs, w2) \<Rightarrow> (Hangs, w2)
                     | (body, w2) \<Rightarrow>
                         (case teardown eng w2 of
                            (Some e, w3) \<Rightarrow> (Raises e, w3)
                          | (None, w3) \<Rightarrow>
                              (let w4 = cleanup_repo (Some repo_path) w3 in
                               case body of
                                 Returns st \<Rightarrow>
                                   (Returns (final_result st (text_of owner) (text_of repo)), w4)
                               | Raises e \<Rightarrow> (Raises e, w4)
                               | Hangs \<Rightarrow> (Hangs, w4))))))"

section \<open>Request Handler (\<open>analyze\<close>, both variants)\<close>

text \<open>
  The JSON body of the request: \<open>data.get('repo_url', '')\<close> and
  \<open>data.get('type', 'overview')\<close>. The response is the status code and the JSON body;
  \<open>None\<close> stands for a request that is never answered.
\<close>

record request =
  repo_url_field :: "string option"
  type_field :: "string option"

record http_response =
  status :: nat
  body :: payload

definition analyze_with ::
    "(string \<Rightarrow> string \<Rightarrow> engine \<Rightarrow> world \<Rightarrow> payload outcome \<times> world) \<Rightarrow>
     request \<Rightarrow> engine \<Rightarrow> world \<Rightarrow> http_response option \<times> world" where
  "analyze_with run req eng w =
     (let repo_url = (case repo_url_field req of None \<Rightarrow> [] | Some u \<Rightarrow> u);
          analysis_type = (case type_field req of None \<Rightarrow> ''overview'' | Some t \<Rightarrow> t)
      in if repo_url = []
         then (Some \<lparr>status = 400, body = [(''error'', JStr ''Repository URL is required'')]\<rparr>, w)
         else
           case run repo_url analysis_type eng w of
             (Returns result, w') \<Rightarrow> (Some \<lparr>status = 200, body = result\<rparr>, w')
           | (Raises e, w') \<Rightarrow> (Some \<lparr>status = 500, body = [(''error'', JStr (str e))]\<rparr>, w')
           | (Hangs, w') \<Rightarrow> (None, w'))"

definition analyze :: "request \<Rightarrow> engine \<Rightarrow> world \<Rightarrow> http_response option \<times> world" where
  "analyze = analyze_with analyze_github_repo"

definition analyze_app :: "request \<Rightarrow> engine \<Rightarrow> world \<Rightarrow> http_response option \<times> world" where
  "analyze_app = analyze_with analyze_github_repo_app"

section \<open>Sample inputs\<close>

text \<open>An engine that answers with one final message and goes idle; an empty world.\<close>

definition sample_engine :: engine where
  "sample_engine =
     \<lparr>start_raises = None, create_raises = None, send_raises = None,
      events = [AssistantMessage ''A widget library.'', SessionIdle],
      wait_raises = None, destroy_raises = None, stop_raises = None\<rparr>"

definition failing_send_engine :: engine where
  "failing_send_engine = sample_engine\<lparr>send_raises := Some (EngineError ''connection lost'')\<rparr>"

definition sample_world :: world where
  "sample_world =
     \<lparr>present = {}, app_dir = ''/srv/app'', gc_script = [], rm_script = [],
      makedirs_script = [], clone_script = [], restore_script = [], trace = []\<rparr>"

text \<open>
  Engines: one that sends three final messages among other events before it goes idle,
  and one that goes idle without any final message.
\<close>

definition three_message_engine :: engine where
  "three_message_engine = sample_engine
     \<lparr>events := [AssistantMessage ''First.'', AssistantMessageDelta (Some ''Sec''),
                 AssistantMessage ''Second.'', ToolExecutionStart ''read_file'' (Some ''call_1''),
                 AssistantMessage ''Third.'', SessionIdle]\<rparr>"

definition silent_engine :: engine where
  "silent_engine = sample_engine\<lparr>events := [SessionIdle]\<rparr>"

text \<open>
  Worlds: one in which the workspace exists and cannot be removed (the first \<open>git gc\<close>
  times out, the removals fail), one in which it exists and nothing fails, one in which
  the clone leaves the directory but reports a failed checkout, one in which the
  clone fails and leaves nothing, one in which there is no \<open>git\<close> to start, and one in
  which the checkout fails and the restore cannot be started.
\<close>

definition locked_world :: world where
  "locked_world = sample_world
     \<lparr>present := {''/srv/app/temp_repos/widgets'', ''/srv/app/temp_repos/widgets/.git''},
      gc_script := [Some (TimeoutExpired ''git gc timed out after 10 seconds'')],
      rm_script := [Some (OSError ''Access is denied''), Some (OSError ''Access is denied'')]\<rparr>"

definition cloned_world :: world where
  "cloned_world = sample_world
     \<lparr>present := {''/srv/app/temp_repos/widgets'', ''/srv/app/temp_repos/widgets/.git''}\<rparr>"

definition checkout_trouble_world :: world where
  "checkout_trouble_world = sample_world
     \<lparr>clone_script := [Inr (''error: unable to create file x: Filename too long\<newline>fatal: unable to checkout working tree\<newline>warning: Clone succeeded, but checkout failed.'', True)]\<rparr>"

definition no_such_repo_world :: world where
  "no_such_repo_world = sample_world
     \<lparr>clone_script := [Inr (''fatal: repository not found'', False)]\<rparr>"

definition no_git_world :: world where
  "no_git_world = sample_world
     \<lparr>clone_script := [Inl (OSError ''[Errno 2] No such file or directory: git'')]\<rparr>"

definition restore_fails_world :: world where
  "restore_fails_world = sample_world
     \<lparr>clone_script := [Inr (''warning: Clone succeeded, but checkout failed.'', True)],
      restore_script := [Some (OSError ''[Errno 12] Cannot allocate memory'')]\<rparr>"

section \<open>Properties of the URL Parser\<close>

lemma strip_last: "strip s = [] \<or> \<not> is_space (last (strip s))"
proof (cases "dropWhile is_space (rev (dropWhile is_space s))")
  case Nil
  then show ?thesis by (simp add: strip_def)
next
  case (Cons a as)
  then have "\<not> is_space (hd (dropWhile is_space (rev (dropWhile is_space s))))"
    by (metis hd_dropWhile list.distinct(1))
  then show ?thesis by (simp add: strip_def last_rev)
qed

lemma clean_strip: "clean (strip s)"
  using strip_last [of s] by (auto simp: clean_def is_space_def)

lemma clean_append: "clean (xs @ ys) \<Longrightarrow> clean ys"
  by (auto simp: clean_def split: if_splits)

lemma clean_Cons: "clean (x # ys) \<Longrightarrow> clean ys"
  by (auto simp: clean_def split: if_splits)

lemma dollar_clean: "clean r \<Longrightarrow> dollar r \<longleftrightarrow> r = []"
  by (auto simp: clean_def dollar_def)

lemma opt_slash_dollar_clean:
  "clean r \<Longrightarrow> opt_slash_dollar r \<longleftrightarrow> r = [] \<or> r = ''/''"
  by (cases r) (auto simp: opt_slash_dollar_def dollar_clean dest: clean_Cons)

lemma tail_ok_clean:
  assumes "clean r"
  shows "tail_ok r \<longleftrightarrow> r = [] \<or> r = ''/'' \<or> r = ''.git'' \<or> r = ''.git/''"
proof -
  have a: "opt_slash_dollar r \<longleftrightarrow> r = [] \<or> r = ''/''"
    using assms by (rule opt_slash_dollar_clean)
  show ?thesis
  proof (cases "prefix ''.git'' r")
    case True
    then obtain r' where r: "r = ''.git'' @ r'" by (auto simp: prefix_def)
    with assms have "clean r'" using clean_append by blast
    then have b: "opt_slash_dollar r' \<longleftrightarrow> r' = [] \<or> r' = ''/''"
      by (rule opt_slash_dollar_clean)
    have "tail_ok r \<longleftrightarrow> opt_slash_dollar r' \<or> opt_slash_dollar r"
      using True r by (simp add: tail_ok_def)
    then show ?thesis using a b r by auto
  next
    case False
    then have "r \<noteq> ''.git''" "r \<noteq> ''.git/''" by auto
    with False show ?thesis by (simp add: tail_ok_def a)
  qed
qed

lemma lazy_name_sound:
  "lazy_name acc r = Some n \<Longrightarrow>
     \<exists>m tr. r = m @ tr \<and> n = acc @ m \<and> n \<noteq> [] \<and> CHR ''/'' \<notin> set m \<and> tail_ok tr \<and>
       (\<forall>k < length m. acc @ take k m \<noteq> [] \<longrightarrow> \<not> tail_ok (drop k m @ tr))"
proof (induction acc r rule: lazy_name.induct)
  case (1 acc)
  then show ?case by (auto split: if_splits)
next
  case (2 acc c cs)
  show ?case
  proof (cases "acc \<noteq> [] \<and> tail_ok (c # cs)")
    case True
    with 2 have "n = acc" by simp
    with True show ?thesis by (intro exI [of _ "[]"] exI [of _ "c # cs"]) simp
  next
    case False
    with "2.prems" have c: "c \<noteq> CHR ''/''" and rec: "lazy_name (acc @ [c]) cs = Some n"
      by (auto split: if_splits)
    from "2.IH" [OF False c rec] obtain m tr where
      m: "cs = m @ tr" "n = (acc @ [c]) @ m" "n \<noteq> []" "CHR ''/'' \<notin> set m" "tail_ok tr"
      and mn: "\<forall>k < length m. (acc @ [c]) @ take k m \<noteq> [] \<longrightarrow> \<not> tail_ok (drop k m @ tr)"
      by blast
    have "\<forall>k < length (c # m). acc @ take k (c # m) \<noteq> [] \<longrightarrow> \<not> tail_ok (drop k (c # m) @ tr)"
    proof (intro allI impI)
      fix k assume k: "k < length (c # m)" and ne: "acc @ take k (c # m) \<noteq> []"
      show "\<not> tail_ok (drop k (c # m) @ tr)"
      proof (cases k)
        case 0
        with ne False m show ?thesis by simp
      next
        case (Suc j)
        with k mn show ?thesis by simp
      qed
    qed
    with m c show ?thesis
      by (intro exI [of _ "c # m"] exI [of _ tr]) simp
  qed
qed

lemma lazy_name_complete:
  "CHR ''/'' \<notin> set m \<Longrightarrow> tail_ok tr \<Longrightarrow> acc @ m \<noteq> [] \<Longrightarrow>
   (\<forall>k < length m. acc @ take k m \<noteq> [] \<longrightarrow> \<not> tail_ok (drop k m @ tr)) \<Longrightarrow>
   lazy_name acc (m @ tr) = Some (acc @ m)"
proof (induction m arbitrary: acc)
  case Nil
  then show ?case by (cases tr) auto
next
  case (Cons c m)
  from Cons.prems(4) have k0: "acc \<noteq> [] \<longrightarrow> \<not> tail_ok ((c # m) @ tr)"
    by (metis drop0 length_greater_0_conv list.distinct(1) self_append_conv take_eq_Nil)
  have rest: "\<forall>k < length m. (acc @ [c]) @ take k m \<noteq> [] \<longrightarrow> \<not> tail_ok (drop k m @ tr)"
  proof (intro allI impI)
    fix k assume "k < length m"
    then have "Suc k < length (c # m)" by simp
    with Cons.prems(4) have "acc @ take (Suc k) (c # m) \<noteq> [] \<longrightarrow> \<not> tail_ok (drop (Suc k) (c # m) @ tr)"
      by blast
    then show "\<not> tail_ok (drop k m @ tr)" by simp
  qed
  have "lazy_name (acc @ [c]) (m @ tr) = Some ((acc @ [c]) @ m)"
    using Cons.prems by (intro Cons.IH rest) auto
  with k0 Cons.prems(1) show ?case by auto
qed

lemma split_at_last:
  "c \<notin> set u \<Longrightarrow> c \<notin> set v \<Longrightarrow> A @ c # u = B @ c # v \<Longrightarrow> A = B \<and> u = v"
proof (induction A arbitrary: B)
  case Nil
  then show ?case by (cases B) auto
next
  case (Cons a A)
  then show ?case by (cases B) auto
qed

lemma hd_dropWhile_slash: "dropWhile not_slash r = x # r2 \<Longrightarrow> x = CHR ''/''"
  using hd_dropWhile [of not_slash r] by (auto simp: not_slash_def)

lemma set_takeWhile_slash: "CHR ''/'' \<notin> set (takeWhile not_slash r)"
  using set_takeWhileD [of "CHR ''/''" not_slash r] by (auto simp: not_slash_def)

lemma takeWhile_seg: "CHR ''/'' \<notin> set a \<Longrightarrow> takeWhile not_slash (a @ CHR ''/'' # r) = a"
  by (induction a) (auto simp: not_slash_def)

lemma dropWhile_seg: "CHR ''/'' \<notin> set a \<Longrightarrow> dropWhile not_slash (a @ CHR ''/'' # r) = CHR ''/'' # r"
  by (induction a) (auto simp: not_slash_def)

lemma takeWhile_all: "CHR ''/'' \<notin> set a \<Longrightarrow> takeWhile not_slash a = a"
  by (induction a) (auto simp: not_slash_def)

lemma dropWhile_all: "CHR ''/'' \<notin> set a \<Longrightarrow> dropWhile not_slash a = []"
  by (induction a) (auto simp: not_slash_def)

lemma tail_ok_git: "tail_ok ''.git''" "tail_ok ''.git/''" "tail_ok ''/''" "tail_ok []"
  by (simp_all add: tail_ok_def opt_slash_dollar_def dollar_def)


lemma git_suffixedD: 
  assumes "git_suffixed n" shows "\<exists>t. n = t @ ''.git'' \<and> t \<noteq> []"
proof -
  from assms obtain zs where n: "n = zs @ ''.git''" and len: "4 < length n"
    unfolding git_suffixed_def suffix_def by blast
  from len have "zs \<noteq> []" unfolding n by simp
  with n show ?thesis by blast
qed

lemma git_suffixedI: "t \<noteq> [] \<Longrightarrow> git_suffixed (t @ ''.git'')"
  unfolding git_suffixed_def by (simp add: suffix_def)

lemma match_owner_name_sound:
  assumes "clean r" and "match_owner_name r = Some (ow, n)"
  shows "seg ow \<and> seg n \<and> (\<exists>git slash. r = ow @ ''/'' @ n @ git @ slash \<and>
           (slash = [] \<or> slash = ''/'') \<and> (git = ''.git'' \<or> (git = [] \<and> \<not> git_suffixed n)))"
proof -
  have ow1: "takeWhile not_slash r \<noteq> []"
    using assms(2) by (auto simp: match_owner_name_def Let_def)
  then have a2: "(case dropWhile not_slash r of [] \<Rightarrow> None
      | _ # r2 \<Rightarrow> (case lazy_name [] r2 of None \<Rightarrow> None
                  | Some g2 \<Rightarrow> Some (takeWhile not_slash r, g2))) = Some (ow, n)"
    using assms(2) by (simp add: match_owner_name_def Let_def)
  then obtain x r2 where dr: "dropWhile not_slash r = x # r2"
    by (cases "dropWhile not_slash r") simp_all
  with a2 have a3: "(case lazy_name [] r2 of None \<Rightarrow> None
                  | Some g2 \<Rightarrow> Some (takeWhile not_slash r, g2)) = Some (ow, n)" by simp
  then have ln: "lazy_name [] r2 = Some n" and ow0: "ow = takeWhile not_slash r"
    by (cases "lazy_name [] r2"; simp)+
  note ow = ow0 ow1 [folded ow0]
  have x: "x = CHR ''/''" using dr by (rule hd_dropWhile_slash)
  have r: "r = ow @ CHR ''/'' # r2"
    using takeWhile_dropWhile_id [of not_slash r] ow dr x by simp
  from lazy_name_sound [OF ln] obtain m tr where
    m0: "r2 = m @ tr" "n = [] @ m" "n \<noteq> []" "CHR ''/'' \<notin> set m" "tail_ok tr"
    and mn0: "\<forall>k < length m. [] @ take k m \<noteq> [] \<longrightarrow> \<not> tail_ok (drop k m @ tr)"
    by blast
  have m: "r2 = m @ tr" "n = m" "n \<noteq> []" "CHR ''/'' \<notin> set m" "tail_ok tr"
    using m0 by simp_all
  have mn: "\<forall>k < length m. take k m \<noteq> [] \<longrightarrow> \<not> tail_ok (drop k m @ tr)"
    using mn0 by simp
  have "clean (CHR ''/'' # m @ tr)" using assms(1) r m(1) clean_append by blast
  then have "clean (m @ tr)" by (rule clean_Cons)
  then have "clean tr" by (rule clean_append)
  with m have tr: "tr = [] \<or> tr = ''/'' \<or> tr = ''.git'' \<or> tr = ''.git/''"
    by (simp add: tail_ok_clean)
  have gs: "\<not> git_suffixed n" if "tr = [] \<or> tr = ''/''"
  proof
    assume "git_suffixed n"
    then obtain t where t: "n = t @ ''.git''" "t \<noteq> []"
      using git_suffixedD by blast
    have "length t < length m" "take (length t) m \<noteq> []" "drop (length t) m = ''.git''"
      using t m(2) by simp_all
    with mn have "\<not> tail_ok (''.git'' @ tr)" by metis
    with that show False using tail_ok_git by auto
  qed
  have "\<exists>git slash. tr = git @ slash \<and> (slash = [] \<or> slash = ''/'') \<and>
          (git = ''.git'' \<or> (git = [] \<and> \<not> git_suffixed n))"
    using tr
  proof (elim disjE)
    assume "tr = []" with gs show ?thesis by (intro exI [of _ "[]"]) simp
  next
    assume "tr = ''/''" with gs show ?thesis by (intro exI [of _ "[]"] exI [of _ "''/''"]) simp
  next
    assume "tr = ''.git''" then show ?thesis by (intro exI [of _ "''.git''"] exI [of _ "[]"]) simp
  next
    assume "tr = ''.git/''" then show ?thesis by (intro exI [of _ "''.git''"] exI [of _ "''/''"]) simp
  qed
  then obtain git slash where "tr = git @ slash" "slash = [] \<or> slash = ''/''"
      "git = ''.git'' \<or> (git = [] \<and> \<not> git_suffixed n)" by blast
  moreover have "seg ow" using ow set_takeWhile_slash by (auto simp: seg_def)
  moreover have "seg n" using m by (auto simp: seg_def)
  ultimately show ?thesis using r m(1,2) by (intro conjI exI [of _ git] exI [of _ slash]) simp_all
qed

lemma rev_tail_cases:
  assumes "R \<noteq> []" "CHR ''/'' \<notin> set R"
    and "s = [] \<or> s = ''/''" and "g = ''tig.'' \<or> g = []"
    and "s @ g @ R = [] \<or> s @ g @ R = ''/'' \<or> s @ g @ R = ''tig.'' \<or> s @ g @ R = ''/tig.''"
  shows "g = [] \<and> R = ''tig.''"
  using assms by (elim disjE) auto

lemma tail_cases:
  assumes "d \<noteq> []" "CHR ''/'' \<notin> set d"
    and "slash = [] \<or> slash = ''/''" and "git = ''.git'' \<or> git = []"
    and "d @ git @ slash = [] \<or> d @ git @ slash = ''/'' \<or> d @ git @ slash = ''.git''
         \<or> d @ git @ slash = ''.git/''"
  shows "git = [] \<and> d = ''.git''"
proof -
  have eq: "rev (d @ git @ slash) = rev slash @ rev git @ rev d" by simp
  have "rev git = [] \<and> rev d = ''tig.''"
  proof (rule rev_tail_cases [of "rev d" "rev slash" "rev git"])
    show "rev d \<noteq> []" using assms(1) by simp
    show "CHR ''/'' \<notin> set (rev d)" using assms(2) by simp
    show "rev slash = [] \<or> rev slash = ''/''" using assms(3) by auto
    show "rev git = ''tig.'' \<or> rev git = []" using assms(4) by auto
    show "rev slash @ rev git @ rev d = [] \<or> rev slash @ rev git @ rev d = ''/'' \<or>
          rev slash @ rev git @ rev d = ''tig.'' \<or> rev slash @ rev git @ rev d = ''/tig.''"
      using assms(5) unfolding eq [symmetric] by (elim disjE) simp_all
  qed
  then have "git = []" "rev (rev d) = rev ''tig.''" by simp_all
  then show ?thesis by simp
qed

lemma match_owner_name_complete:
  assumes "clean r" "seg ow" "seg n" "r = ow @ ''/'' @ n @ git @ slash"
    and sl: "slash = [] \<or> slash = ''/''"
    and gi: "git = ''.git'' \<or> (git = [] \<and> \<not> git_suffixed n)"
  shows "match_owner_name r = Some (ow, n)"
proof -
  have ow: "ow \<noteq> []" "CHR ''/'' \<notin> set ow" and n: "n \<noteq> []" "CHR ''/'' \<notin> set n"
    using assms(2,3) by (simp_all add: seg_def)
  have r: "r = ow @ CHR ''/'' # (n @ git @ slash)" using assms(4) by simp
  have tw: "takeWhile not_slash r = ow" unfolding r using ow(2) by (rule takeWhile_seg)
  have dw: "dropWhile not_slash r = CHR ''/'' # (n @ git @ slash)"
    unfolding r using ow(2) by (rule dropWhile_seg)
  have tok: "tail_ok (git @ slash)" using sl gi tail_ok_git by auto
  have minimal: "\<forall>k < length n. [] @ take k n \<noteq> [] \<longrightarrow> \<not> tail_ok (drop k n @ git @ slash)"
  proof (intro allI impI)
    fix k assume k: "k < length n" and ne: "[] @ take k n \<noteq> []"
    let ?d = "drop k n"
    have d: "?d \<noteq> []" "CHR ''/'' \<notin> set ?d" using k n(2) by (auto dest: in_set_dropD)
    have "r = (ow @ CHR ''/'' # take k n) @ (?d @ git @ slash)" unfolding r by simp
    then have "clean (?d @ git @ slash)" using assms(1) clean_append by metis
    then have iff: "tail_ok (?d @ git @ slash) \<longleftrightarrow> ?d @ git @ slash = [] \<or>
        ?d @ git @ slash = ''/'' \<or> ?d @ git @ slash = ''.git'' \<or> ?d @ git @ slash = ''.git/''"
      by (rule tail_ok_clean)
    show "\<not> tail_ok (?d @ git @ slash)"
    proof
      assume "tail_ok (?d @ git @ slash)"
      with iff have "git = [] \<and> ?d = ''.git''"
        using tail_cases [OF d sl, of git] gi by blast
      then have g: "git = []" and dd: "?d = ''.git''" by simp_all
      have "n = take k n @ ''.git''" using append_take_drop_id [of k n] dd by simp
      moreover have "take k n \<noteq> []" using ne by simp
      ultimately have "git_suffixed n" using git_suffixedI by metis
      with gi g show False by simp
    qed
  qed
  have "lazy_name [] (n @ (git @ slash)) = Some ([] @ n)"
    using n(2) tok _ minimal by (rule lazy_name_complete) (simp add: n)
  then show ?thesis using ow(1) by (simp add: match_owner_name_def tw dw)
qed

lemma search1_SomeD: "search1 s = Some r \<Longrightarrow> \<exists>p t. s = p @ t \<and> match1_at t = Some r"
proof (induction s)
  case Nil
  then show ?case by simp
next
  case (Cons c cs)
  show ?case
  proof (cases "match1_at (c # cs)")
    case None
    with Cons.prems have "search1 cs = Some r" by simp
    with Cons.IH obtain p t where "cs = p @ t" "match1_at t = Some r" by blast
    then show ?thesis by (intro exI [of _ "c # p"] exI [of _ t]) simp
  next
    case (Some a)
    with Cons.prems have "match1_at (c # cs) = Some r" by simp
    then show ?thesis by (intro exI [of _ "[]"] exI [of _ "c # cs"]) simp
  qed
qed

lemma search1_skip:
  "(\<forall>k < length p. match1_at (drop k p @ t) = None) \<Longrightarrow> search1 (p @ t) = search1 t"
proof (induction p)
  case Nil
  then show ?case by simp
next
  case (Cons c p)
  from Cons.prems have "match1_at (drop 0 (c # p) @ t) = None" by blast
  then have here: "match1_at (c # p @ t) = None" by simp
  have "\<forall>k < length p. match1_at (drop k p @ t) = None"
  proof (intro allI impI)
    fix k assume "k < length p"
    then have "Suc k < length (c # p)" by simp
    with Cons.prems have "match1_at (drop (Suc k) (c # p) @ t) = None" by blast
    then show "match1_at (drop k p @ t) = None" by simp
  qed
  with Cons.IH have "search1 (p @ t) = search1 t" by blast
  with here show ?case by simp
qed

lemma search1_hit: "match1_at t = Some r \<Longrightarrow> search1 t = Some r"
  by (cases t) simp_all

lemma match1_at_sound:
  assumes "clean t" and "match1_at t = Some (ow, n)"
  shows "seg ow \<and> seg n \<and> (\<exists>git slash. t = ''github.com/'' @ ow @ ''/'' @ n @ git @ slash \<and>
           (slash = [] \<or> slash = ''/'') \<and> (git = ''.git'' \<or> (git = [] \<and> \<not> git_suffixed n)))"
proof -
  from assms(2) have p: "prefix ''github.com/'' t"
    and m: "match_owner_name (drop 11 t) = Some (ow, n)"
    by (simp_all add: match1_at_def split: if_splits)
  from p obtain r where t: "t = ''github.com/'' @ r" by (auto simp: prefix_def)
  then have r: "drop 11 t = r" by simp
  have "clean r" using assms(1) unfolding t by (rule clean_append)
  from match_owner_name_sound [OF this m [unfolded r]] show ?thesis
    unfolding t by simp
qed

lemma match1_at_complete:
  assumes "clean t" "seg ow" "seg n" "t = ''github.com/'' @ ow @ ''/'' @ n @ git @ slash"
    and "slash = [] \<or> slash = ''/''"
    and "git = ''.git'' \<or> (git = [] \<and> \<not> git_suffixed n)"
  shows "match1_at t = Some (ow, n)"
proof -
  let ?r = "ow @ ''/'' @ n @ git @ slash"
  have t: "t = ''github.com/'' @ ?r" using assms(4) by simp
  have "clean ?r" using assms(1) unfolding t by (rule clean_append)
  then have "match_owner_name ?r = Some (ow, n)"
    using assms(2,3) _ assms(5,6) by (rule match_owner_name_complete) simp
  then show ?thesis unfolding t by (simp add: match1_at_def)
qed

lemma last_name:
  assumes "seg n" "git = ''.git'' \<or> git = []"
  shows "n @ git \<noteq> [] \<and> last (n @ git) \<noteq> CHR ''/''"
proof -
  have n: "n \<noteq> []" "CHR ''/'' \<notin> set n" using assms(1) by (simp_all add: seg_def)
  from n(1) have "last n \<in> set n" by (rule last_in_set)
  with n(2) have "last n \<noteq> CHR ''/''" by metis
  with n(1) show ?thesis using assms(2) by (elim disjE) simp_all
qed

lemma same_slash:
  assumes "u \<noteq> []" "last u \<noteq> CHR ''/''" "v \<noteq> []" "last v \<noteq> CHR ''/''"
    and "s = [] \<or> s = ''/''" "s' = [] \<or> s' = ''/''"
    and "A @ u @ s = B @ v @ s'"
  shows "s = s' \<and> A @ u = B @ v"
proof -
  have "last (A @ u @ s) = last (B @ v @ s')" using assms(7) by simp
  then have "s = s'" using assms(1-6) by (elim disjE) simp_all
  with assms(7) show ?thesis by simp
qed

lemma earlier_none:
  assumes "clean x" "x = d @ ''github.com/'' @ ow @ ''/'' @ n @ git @ slash" "d \<noteq> []"
    and "seg ow" "seg n" "slash = [] \<or> slash = ''/''" "git = ''.git'' \<or> git = []"
  shows "match1_at x = None"
proof (rule ccontr)
  assume "match1_at x \<noteq> None"
  then obtain a b where "match1_at x = Some (a, b)" by auto
  from match1_at_sound [OF assms(1) this] obtain g' s' where
    ab: "seg a" "seg b" and x: "x = ''github.com/'' @ a @ ''/'' @ b @ g' @ s'"
    and s': "s' = [] \<or> s' = ''/''" and g': "g' = ''.git'' \<or> g' = []"
    by blast
  have u: "b @ g' \<noteq> [] \<and> last (b @ g') \<noteq> CHR ''/''" using ab(2) g' by (rule last_name)
  have v: "n @ git \<noteq> [] \<and> last (n @ git) \<noteq> CHR ''/''" using assms(5,7) by (rule last_name)
  have "(''github.com/'' @ a @ ''/'') @ (b @ g') @ s' = (d @ ''github.com/'' @ ow @ ''/'') @ (n @ git) @ slash"
    using x assms(2) by simp
  from same_slash [OF conjunct1 [OF u] conjunct2 [OF u] conjunct1 [OF v] conjunct2 [OF v]
      s' assms(6) this] have
    "(''github.com/'' @ a @ ''/'') @ (b @ g') = (d @ ''github.com/'' @ ow @ ''/'') @ (n @ git)"
    by (rule conjunct2)
  then have e1: "(''github.com/'' @ a) @ CHR ''/'' # (b @ g') = (d @ ''github.com/'' @ ow) @ CHR ''/'' # (n @ git)"
    by simp
  have "CHR ''/'' \<notin> set (b @ g')" "CHR ''/'' \<notin> set (n @ git)"
    using ab(2) assms(5) g' assms(7) by (auto simp: seg_def)
  from split_at_last [OF this e1] have "''github.com/'' @ a = d @ ''github.com/'' @ ow" by simp
  then have e2: "''github.com'' @ CHR ''/'' # a = (d @ ''github.com'') @ CHR ''/'' # ow" by simp
  have "CHR ''/'' \<notin> set a" "CHR ''/'' \<notin> set ow" using ab(1) assms(4) by (simp_all add: seg_def)
  from split_at_last [OF this e2] have "''github.com'' = d @ ''github.com''" by simp
  then have "length ''github.com'' = length (d @ ''github.com'')" by simp
  with assms(3) show False by simp
qed

lemma search1_full:
  assumes "clean t" "full_form t ow n"
  shows "search1 t = Some (ow, n)"
proof -
  from assms(2) obtain p git slash where
    s: "seg ow" "seg n" and t: "t = p @ ''github.com/'' @ ow @ ''/'' @ n @ git @ slash"
    and sl: "slash = [] \<or> slash = ''/''"
    and gi: "git = ''.git'' \<or> (git = [] \<and> \<not> git_suffixed n)"
    unfolding full_form_def by blast
  let ?t0 = "''github.com/'' @ ow @ ''/'' @ n @ git @ slash"
  have t': "t = p @ ?t0" using t by simp
  have c0: "clean ?t0" using assms(1) unfolding t' by (rule clean_append)
  have "\<forall>k < length p. match1_at (drop k p @ ?t0) = None"
  proof (intro allI impI)
    fix k assume k: "k < length p"
    have "t = take k p @ (drop k p @ ?t0)" unfolding t' by simp
    then have "clean (drop k p @ ?t0)" using assms(1) clean_append by metis
    moreover have "drop k p \<noteq> []" using k by simp
    moreover have "git = ''.git'' \<or> git = []" using gi by blast
    ultimately show "match1_at (drop k p @ ?t0) = None"
      using s sl by (intro earlier_none [of _ "drop k p" ow n git slash]) simp_all
  qed
  then have "search1 (p @ ?t0) = search1 ?t0" by (rule search1_skip)
  moreover have "match1_at ?t0 = Some (ow, n)"
    using c0 s _ sl gi by (rule match1_at_complete) simp
  ultimately show ?thesis unfolding t' using search1_hit by simp
qed

lemma search1_sound:
  assumes "clean t" "search1 t = Some (ow, n)"
  shows "full_form t ow n"
proof -
  from search1_SomeD [OF assms(2)] obtain p t0 where
    t: "t = p @ t0" and m: "match1_at t0 = Some (ow, n)" by blast
  have "clean t0" using assms(1) unfolding t by (rule clean_append)
  from match1_at_sound [OF this m] obtain git slash where
    "seg ow" "seg n" "t0 = ''github.com/'' @ ow @ ''/'' @ n @ git @ slash"
    "slash = [] \<or> slash = ''/''" "git = ''.git'' \<or> (git = [] \<and> \<not> git_suffixed n)"
    by blast
  then show ?thesis unfolding full_form_def t
    by (intro conjI exI [of _ p] exI [of _ git] exI [of _ slash]) simp_all
qed

lemma full_form_slashes:
  assumes "full_form t ow n"
  shows "2 \<le> length (filter (\<lambda>c. c = CHR ''/'') t)"
proof -
  from assms obtain p git slash where
    "t = p @ ''github.com/'' @ ow @ ''/'' @ n @ git @ slash"
    unfolding full_form_def by blast
  then show ?thesis by simp
qed

lemma bare_form_slashes:
  assumes "bare_form t ow n"
  shows "length (filter (\<lambda>c. c = CHR ''/'') t) = 1"
proof -
  from assms have t: "t = ow @ ''/'' @ n" and s: "CHR ''/'' \<notin> set ow" "CHR ''/'' \<notin> set n"
    by (simp_all add: bare_form_def seg_def)
  have "filter (\<lambda>c. c = CHR ''/'') ow = []" "filter (\<lambda>c. c = CHR ''/'') n = []"
    using s by (auto simp: filter_empty_conv)
  then show ?thesis unfolding t by simp
qed

lemma search1_bare:
  assumes "clean t" "bare_form t ow n"
  shows "search1 t = None"
proof (cases "search1 t")
  case None
  then show ?thesis .
next
  case (Some r)
  obtain a b where "r = (a, b)" by (cases r)
  with Some assms(1) have "full_form t a b" using search1_sound by blast
  then have "2 \<le> length (filter (\<lambda>c. c = CHR ''/'') t)" by (rule full_form_slashes)
  moreover have "length (filter (\<lambda>c. c = CHR ''/'') t) = 1" using assms(2) by (rule bare_form_slashes)
  ultimately show ?thesis by simp
qed

lemma search2_bare:
  assumes "bare_form t ow n"
  shows "search2 t = Some (ow, n)"
proof -
  from assms have t: "t = ow @ CHR ''/'' # n" and ow: "ow \<noteq> []" "CHR ''/'' \<notin> set ow"
    and n: "n \<noteq> []" "CHR ''/'' \<notin> set n"
    by (simp_all add: bare_form_def seg_def)
  have tw: "takeWhile not_slash t = ow" unfolding t using ow(2) by (rule takeWhile_seg)
  have dw: "dropWhile not_slash t = CHR ''/'' # n" unfolding t using ow(2) by (rule dropWhile_seg)
  have g2: "takeWhile not_slash n = n" using n(2) by (rule takeWhile_all)
  have d2: "dropWhile not_slash n = []" using n(2) by (rule dropWhile_all)
  show ?thesis
    unfolding search2_def Let_def tw dw list.case g2 d2 dollar_def using ow(1) n(1) by simp
qed

lemma dollar_dropWhile: "dollar (dropWhile not_slash r) \<Longrightarrow> dropWhile not_slash r = []"
proof (cases "dropWhile not_slash r")
  case Nil
  then show ?thesis by simp
next
  case (Cons x xs)
  then have "x = CHR ''/''" by (rule hd_dropWhile_slash)
  moreover assume "dollar (dropWhile not_slash r)"
  ultimately show ?thesis using Cons by (simp add: dollar_def)
qed

lemma search2_sound:
  assumes "search2 t = Some (ow, n)"
  shows "bare_form t ow n"
proof -
  have ow1: "takeWhile not_slash t \<noteq> []"
    using assms by (auto simp: search2_def Let_def)
  obtain x r2 where dr: "dropWhile not_slash t = x # r2"
    using assms ow1 by (cases "dropWhile not_slash t") (simp_all add: search2_def Let_def)
  have a3: "(if takeWhile not_slash r2 \<noteq> [] \<and> dollar (dropWhile not_slash r2)
                   then Some (takeWhile not_slash t, takeWhile not_slash r2) else None) = Some (ow, n)"
    using assms ow1 dr by (simp add: search2_def Let_def)
  then have c: "takeWhile not_slash r2 \<noteq> []" "dollar (dropWhile not_slash r2)"
    by (simp_all split: if_splits)
  with a3 have ow: "ow = takeWhile not_slash t" and n: "n = takeWhile not_slash r2" by simp_all
  have x: "x = CHR ''/''" using dr by (rule hd_dropWhile_slash)
  have "dropWhile not_slash r2 = []" using c(2) by (rule dollar_dropWhile)
  then have r2: "r2 = n" using takeWhile_dropWhile_id [of not_slash r2] n by (metis append_Nil2)
  have t: "t = ow @ CHR ''/'' # n"
    using takeWhile_dropWhile_id [of not_slash t] ow dr x r2 by simp
  have "seg ow" using ow ow1 set_takeWhile_slash by (auto simp: seg_def)
  moreover have "seg n" using n c(1) set_takeWhile_slash by (auto simp: seg_def)
  ultimately show ?thesis using t by (simp add: bare_form_def)
qed

lemma parse_github_url_cases:
  "parse_github_url s =
     (case search1 (strip s) of Some (a, b) \<Rightarrow> (Some a, Some b)
      | None \<Rightarrow> (case search2 (strip s) of Some (a, b) \<Rightarrow> (Some a, Some b)
                 | None \<Rightarrow> (None, None)))"
  by (simp add: parse_github_url_def patterns_def split: option.splits)

lemma parse_found_iff:
  "parse_github_url s = (Some ow, Some n) \<longleftrightarrow>
     full_form (strip s) ow n \<or> bare_form (strip s) ow n"
proof
  assume res: "parse_github_url s = (Some ow, Some n)"
  show "full_form (strip s) ow n \<or> bare_form (strip s) ow n"
  proof (cases "search1 (strip s)")
    case (Some r)
    with res have "search1 (strip s) = Some (ow, n)"
      by (cases r) (simp add: parse_github_url_cases)
    then show ?thesis using search1_sound clean_strip by blast
  next
    case None
    with res have "search2 (strip s) = Some (ow, n)"
      by (cases "search2 (strip s)") (auto simp: parse_github_url_cases)
    then show ?thesis using search2_sound by blast
  qed
next
  assume "full_form (strip s) ow n \<or> bare_form (strip s) ow n"
  then show "parse_github_url s = (Some ow, Some n)"
  proof
    assume "full_form (strip s) ow n"
    then have "search1 (strip s) = Some (ow, n)" using clean_strip search1_full by blast
    then show ?thesis by (simp add: parse_github_url_cases)
  next
    assume b: "bare_form (strip s) ow n"
    then have "search1 (strip s) = None" using clean_strip search1_bare by blast
    moreover have "search2 (strip s) = Some (ow, n)" using b by (rule search2_bare)
    ultimately show ?thesis by (simp add: parse_github_url_cases)
  qed
qed

lemma parse_shape:
  "parse_github_url s = (None, None) \<or>
     (\<exists>ow n. parse_github_url s = (Some ow, Some n) \<and> seg ow \<and> seg n)"
proof (cases "search1 (strip s)")
  case (Some r)
  obtain a b where r: "r = (a, b)" by (cases r)
  with Some have "full_form (strip s) a b" using search1_sound clean_strip by blast
  then have "seg a" "seg b" by (simp_all add: full_form_def)
  then show ?thesis using Some r by (simp add: parse_github_url_cases)
next
  case None
  show ?thesis
  proof (cases "search2 (strip s)")
    case None
    with \<open>search1 (strip s) = None\<close> show ?thesis by (simp add: parse_github_url_cases)
  next
    case (Some r)
    obtain a b where r: "r = (a, b)" by (cases r)
    with Some have "bare_form (strip s) a b" using search2_sound by blast
    then have "seg a" "seg b" by (simp_all add: bare_form_def)
    then show ?thesis using Some r None by (simp add: parse_github_url_cases)
  qed
qed

text \<open>
  Claim C3, as the code has it. The parser returns the pair \<open>(ow, n)\<close> exactly when the
  trimmed input ends with \<open>github.com/ow/n\<close>, an optional \<open>.git\<close> and an optional slash
  (\<open>ow\<close> and \<open>n\<close> non-empty and free of slashes), or is exactly \<open>ow/n\<close>; in the second
  form nothing is cut off, and a trailing slash does not match. For every other input
  it returns the not-found pair \<open>(None, None)\<close>.
\<close>

theorem parse_github_url_forms:
  "(parse_github_url s = (Some ow, Some n) \<longleftrightarrow>
      full_form (strip s) ow n \<or> bare_form (strip s) ow n) \<and>
   ((\<forall>a b. \<not> full_form (strip s) a b \<and> \<not> bare_form (strip s) a b) \<longrightarrow>
      parse_github_url s = (None, None))"
proof (intro conjI impI)
  show "parse_github_url s = (Some ow, Some n) \<longleftrightarrow>
      full_form (strip s) ow n \<or> bare_form (strip s) ow n" by (rule parse_found_iff)
next
  assume no: "\<forall>a b. \<not> full_form (strip s) a b \<and> \<not> bare_form (strip s) a b"
  from parse_shape [of s] show "parse_github_url s = (None, None)"
  proof
    assume "\<exists>ow n. parse_github_url s = (Some ow, Some n) \<and> seg ow \<and> seg n"
    then obtain a b where "parse_github_url s = (Some a, Some b)" by blast
    then have "full_form (strip s) a b \<or> bare_form (strip s) a b" by (simp add: parse_found_iff)
    with no show ?thesis by blast
  qed
qed

text \<open>
  Claim C10. The result is \<open>(None, None)\<close> or a pair of two non-empty texts without a
  slash, never a pair with one \<open>None\<close> or an empty text; so the caller's test, that both
  components are true values, holds exactly when the parse succeeded.
\<close>

theorem parse_github_url_total_shape:
  "(parse_github_url s = (None, None) \<or>
     (\<exists>ow n. parse_github_url s = (Some ow, Some n) \<and>
        ow \<noteq> [] \<and> CHR ''/'' \<notin> set ow \<and> n \<noteq> [] \<and> CHR ''/'' \<notin> set n)) \<and>
   ((truthy (fst (parse_github_url s)) \<and> truthy (snd (parse_github_url s))) \<longleftrightarrow>
      parse_github_url s \<noteq> (None, None))"
  using parse_shape [of s] by (auto simp: seg_def truthy_def)

lemma form_has_slash: "full_form t ow n \<or> bare_form t ow n \<Longrightarrow> CHR ''/'' \<in> set t"
  by (auto simp: full_form_def bare_form_def)

lemma strip_ex1: "strip ''not a url'' = ''not a url''"
  by (simp add: strip_def is_space_def)

lemma strip_ex2: "strip '' https://github.com/acme/widgets.git/ '' = ''https://github.com/acme/widgets.git/''"
  by (simp add: strip_def is_space_def)

theorem parse_github_url_forms_witness:
  "(\<forall>a b. \<not> full_form (strip ''not a url'') a b \<and> \<not> bare_form (strip ''not a url'') a b) \<and>
   parse_github_url ''not a url'' = (None, None) \<and>
   full_form (strip '' https://github.com/acme/widgets.git/ '') ''acme'' ''widgets'' \<and>
   parse_github_url '' https://github.com/acme/widgets.git/ '' = (Some ''acme'', Some ''widgets'')"
proof -
  have no: "\<forall>a b. \<not> full_form (strip ''not a url'') a b \<and> \<not> bare_form (strip ''not a url'') a b"
  proof (intro allI)
    fix a b
    have "CHR ''/'' \<notin> set ''not a url''" by simp
    then show "\<not> full_form (strip ''not a url'') a b \<and> \<not> bare_form (strip ''not a url'') a b"
      unfolding strip_ex1 using form_has_slash by blast
  qed
  have ff: "full_form (strip '' https://github.com/acme/widgets.git/ '') ''acme'' ''widgets''"
    unfolding strip_ex2 full_form_def
    by (intro conjI exI [of _ "''https://''"] exI [of _ "''.git''"] exI [of _ "''/''"])
       (simp_all add: seg_def git_suffixed_def suffix_to_prefix)
  from no ff parse_github_url_forms [of "''not a url''"]
    parse_github_url_forms [of "'' https://github.com/acme/widgets.git/ ''" "''acme''" "''widgets''"]
  show ?thesis by blast
qed

text \<open>
  The shorthand form with a \<open>.git\<close> suffix keeps the suffix in the name, the shorthand
  form with a trailing slash is not found, and a host other than \<open>github.com\<close> is not
  found.
\<close>

theorem parse_github_url_bare_counterexample:
  "parse_github_url ''acme/widgets.git'' = (Some ''acme'', Some ''widgets.git'') \<and>
   parse_github_url ''acme/widgets.git'' \<noteq> (Some ''acme'', Some ''widgets'') \<and>
   parse_github_url ''acme/widgets/'' = (None, None) \<and>
   parse_github_url ''https://gitlab.com/acme/widgets'' = (None, None)"
  by code_simp

section \<open>Properties of the event handler\<close>


lemma handle_event_response:
  "response_content (handle_event ev st) = response_content st @ List.map_filter final_message [ev]"
  by (cases ev rule: logged.cases) (simp_all add: List.map_filter_simps Let_def)

lemma handle_event_done:
  "done_is_set (handle_event ev st) \<longleftrightarrow> done_is_set st \<or> ev = SessionIdle"
  by (cases ev rule: logged.cases) (simp_all add: Let_def)

lemma map_filter_append1:
  "List.map_filter f (xs @ ys) = List.map_filter f xs @ List.map_filter f ys"
  by (simp add: List.map_filter_def)

lemma map_filter_Cons1:
  "List.map_filter f (x # xs) = List.map_filter f [x] @ List.map_filter f xs"
  using map_filter_append1 [of f "[x]" xs] by simp


lemma handle_all_response:
  "response_content (handle_all st evs) = response_content st @ List.map_filter final_message evs"
proof (induction evs arbitrary: st)
  case Nil
  then show ?case by (simp add: List.map_filter_simps)
next
  case (Cons ev evs)
  have "response_content (handle_all st (ev # evs)) =
        (response_content st @ List.map_filter final_message [ev]) @ List.map_filter final_message evs"
    by (simp add: Cons.IH handle_event_response)
  then show ?case using map_filter_Cons1 [of final_message ev evs] by simp
qed

lemma handle_all_done:
  "done_is_set (handle_all st evs) \<longleftrightarrow> done_is_set st \<or> SessionIdle \<in> set evs"
  by (induction evs arbitrary: st) (auto simp: handle_event_done)





section \<open>Properties of the Workspace Reaper\<close>

lemma trace_emit: "trace (emit a w) = trace w @ [a]"
  by (simp add: emit_def)

lemma present_emit: "present (emit a w) = present w"
  by (simp add: emit_def)

lemma scripts_emit: "gc_script (emit a w) = gc_script w" "rm_script (emit a w) = rm_script w"
  by (simp_all add: emit_def)

lemma added_append: "trace w' = trace w @ ext \<Longrightarrow> added w w' = ext"
  by (simp add: added_def)

lemma git_gc_facts:
  assumes "git_gc p w = (r, w1)"
  shows "trace w1 = trace w @ [GitGc p]" "present w1 = present w"
    "rm_script w1 = rm_script w" "set (gc_script w) \<subseteq> {None} \<Longrightarrow> r = None"
    "set (gc_script w1) \<subseteq> set (gc_script w)"
  using assms by (auto simp: git_gc_def emit_def split: list.splits)

lemma rmtree_facts:
  assumes "rmtree p w = (r, w1)"
  shows "trace w1 = trace w @ [Rmtree p]" "r = None \<Longrightarrow> p \<notin> present w1"
    "set (rm_script w) \<subseteq> {None} \<Longrightarrow> r = None"
  using assms by (auto simp: rmtree_def emit_def under_def split: list.splits option.splits)

lemma try_remove_absent: "p \<notin> present w \<Longrightarrow> try_remove p w = (None, w)"
  by (simp add: try_remove_def)

lemma try_remove_facts:
  assumes "try_remove p w = (r, w1)"
  shows "r = None \<Longrightarrow> p \<notin> present w1"
    and "\<exists>ext. trace w1 = trace w @ ext \<and> filter is_attempt_mark ext = [] \<and>
           length (filter is_removal ext) \<le> 1"
    and "set (gc_script w) \<subseteq> {None} \<Longrightarrow> set (rm_script w) \<subseteq> {None} \<Longrightarrow> r = None"
proof -
  consider (absent) "p \<notin> present w"
    | (plain) "p \<in> present w" "path_join p ''.git'' \<notin> present w"
    | (git) "p \<in> present w" "path_join p ''.git'' \<in> present w"
    by blast
  then have "(r = None \<longrightarrow> p \<notin> present w1) \<and>
     (\<exists>ext. trace w1 = trace w @ ext \<and> filter is_attempt_mark ext = [] \<and>
           length (filter is_removal ext) \<le> 1) \<and>
     (set (gc_script w) \<subseteq> {None} \<longrightarrow> set (rm_script w) \<subseteq> {None} \<longrightarrow> r = None)"
  proof cases
    case absent
    with assms have "r = None" "w1 = w" by (simp_all add: try_remove_def)
    with absent show ?thesis by simp
  next
    case plain
    with assms have rm: "rmtree p w = (r, w1)" by (simp add: try_remove_def)
    from rmtree_facts [OF rm] show ?thesis
      by (simp add: is_attempt_mark_def is_removal_def)
  next
    case git
    obtain r0 w0 where gc: "git_gc p w = (r0, w0)" by (cases "git_gc p w")
    note g = git_gc_facts [OF gc]
    show ?thesis
    proof (cases r0)
      case (Some e)
      with assms git gc have "r = Some e" "w1 = w0" by (simp_all add: try_remove_def)
      with g Some show ?thesis by (auto simp: is_attempt_mark_def is_removal_def)
    next
      case None
      with assms git gc have rm: "rmtree p w0 = (r, w1)" by (simp add: try_remove_def)
      note m = rmtree_facts [OF rm]
      have "trace w1 = trace w @ [GitGc p, Rmtree p]" using m(1) g(1) by simp
      moreover have "set (rm_script w) \<subseteq> {None} \<longrightarrow> r = None" using m(3) g(3) by simp
      ultimately show ?thesis using m(2) by (simp add: is_attempt_mark_def is_removal_def)
    qed
  qed
  then show "r = None \<Longrightarrow> p \<notin> present w1"
    and "\<exists>ext. trace w1 = trace w @ ext \<and> filter is_attempt_mark ext = [] \<and>
           length (filter is_removal ext) \<le> 1"
    and "set (gc_script w) \<subseteq> {None} \<Longrightarrow> set (rm_script w) \<subseteq> {None} \<Longrightarrow> r = None"
    by blast+
qed

lemma attempts_True_absent:
  "attempts as retries p w = (True, w1) \<Longrightarrow> p \<notin> present w1"
proof (induction as arbitrary: w)
  case Nil
  then show ?case by simp
next
  case (Cons a as)
  obtain r w0 where t: "try_remove p w = (r, w0)" by (cases "try_remove p w")
  show ?case
  proof (cases r)
    case None
    with Cons.prems t have "w1 = w0" by simp
    with try_remove_facts(1) [OF t] None show ?thesis by simp
  next
    case (Some e)
    let ?w3 = "if int a < int retries - 1
        then emit (Sleep 1) (emit (Warn (a + 1)) w0) else emit (Warn (a + 1)) w0"
    from Cons.prems t Some have "attempts as retries p ?w3 = (True, w1)"
      by (auto simp: Let_def split: if_splits)
    then show ?thesis by (rule Cons.IH)
  qed
qed

lemma upt_3: "[0..<3] = [0, 1, 2::nat]"
  by code_simp

lemma safe_rmtree_unfold: "safe_rmtree p w = attempts [0, 1, 2] 3 p w"
  by (simp only: safe_rmtree_def safe_rmtree_n_def upt_3)

lemma safe_rmtree_absent: "p \<notin> present w \<Longrightarrow> safe_rmtree p w = (True, w)"
  by (simp add: safe_rmtree_unfold try_remove_absent)

text \<open>
  Claim C7. On a path that does not exist the reaper does nothing and reports success.
  Whenever an invocation reports success the path is gone, so the next invocation on
  the same path does nothing and reports success too; and an invocation whose removal
  steps do not fail reports success.
\<close>

theorem safe_rmtree_idempotent:
  "(p \<notin> present w \<longrightarrow> safe_rmtree p w = (True, w)) \<and>
   (safe_rmtree p w = (True, w1) \<longrightarrow> p \<notin> present w1 \<and> safe_rmtree p w1 = (True, w1)) \<and>
   (set (gc_script w) \<subseteq> {None} \<and> set (rm_script w) \<subseteq> {None} \<longrightarrow> fst (safe_rmtree p w))"
proof (intro conjI impI)
  assume "p \<notin> present w"
  then show "safe_rmtree p w = (True, w)" by (rule safe_rmtree_absent)
next
  assume "safe_rmtree p w = (True, w1)"
  then show "p \<notin> present w1" unfolding safe_rmtree_unfold by (rule attempts_True_absent)
  then show "safe_rmtree p w1 = (True, w1)" by (rule safe_rmtree_absent)
next
  assume a: "set (gc_script w) \<subseteq> {None} \<and> set (rm_script w) \<subseteq> {None}"
  obtain r w0 where t: "try_remove p w = (r, w0)" by (cases "try_remove p w")
  from try_remove_facts(3) [OF t] a have "r = None" by blast
  with t show "fst (safe_rmtree p w)" by (simp add: safe_rmtree_unfold)
qed

lemma attempts_step:
  assumes "attempts (a # as) retries p w = (ok, w')"
  shows "(\<exists>ext. ok \<and> trace w' = trace w @ ext \<and> filter is_attempt_mark ext = [] \<and>
            length (filter is_removal ext) \<le> 1) \<or>
         (\<exists>ext w3. trace w3 = trace w @ ext @ Warn (a + 1) #
                        (if int a < int retries - 1 then [Sleep 1] else []) \<and>
            filter is_attempt_mark ext = [] \<and> length (filter is_removal ext) \<le> 1 \<and>
            attempts as retries p w3 = (ok, w'))"
proof -
  obtain r w0 where t: "try_remove p w = (r, w0)" by (cases "try_remove p w")
  from try_remove_facts(2) [OF t] obtain ext where
    ext: "trace w0 = trace w @ ext" "filter is_attempt_mark ext = []"
      "length (filter is_removal ext) \<le> 1" by blast
  show ?thesis
  proof (cases r)
    case None
    with assms t have "ok" "w' = w0" by simp_all
    with ext show ?thesis by blast
  next
    case (Some e)
    let ?w3 = "if int a < int retries - 1
        then emit (Sleep 1) (emit (Warn (a + 1)) w0) else emit (Warn (a + 1)) w0"
    from assms t Some have rec: "attempts as retries p ?w3 = (ok, w')"
      by (auto simp: Let_def split: if_splits)
    have "trace ?w3 = trace w @ ext @ Warn (a + 1) #
                        (if int a < int retries - 1 then [Sleep 1] else [])"
      using ext(1) by (simp add: trace_emit)
    with ext(2,3) rec show ?thesis by blast
  qed
qed

lemma attempts_Nil: "attempts [] retries p w = (ok, w') \<Longrightarrow> \<not> ok \<and> trace w' = trace w @ [GaveUp p]"
  by (auto simp: trace_emit)

lemma marks_simps:
  "is_attempt_mark (Warn k)" "is_attempt_mark (Sleep k)" "is_attempt_mark (GaveUp p)"
  "\<not> is_removal (Warn k)" "\<not> is_removal (Sleep k)" "\<not> is_removal (GaveUp p)"
  by (simp_all add: is_attempt_mark_def is_removal_def)

text \<open>
  Claim C8. With the default of three attempts the reaper tries the removal at most three
  times. Each failed attempt is followed by its warning, and a sleep of one second
  stands between two attempts and nowhere else. When all three attempts fail the
  result is \<open>False\<close>; an exception of \<open>git gc\<close> or of the removal counts as a failed
  attempt and never leaves the function: the result is a truth value on every path.
\<close>

theorem safe_rmtree_bounded_retries:
  assumes "safe_rmtree p w = (ok, w')"
  shows "length (filter is_removal (added w w')) \<le> 3 \<and>
     (ok \<longrightarrow> filter is_attempt_mark (added w w') \<in>
        {[], [Warn 1, Sleep 1], [Warn 1, Sleep 1, Warn 2, Sleep 1]}) \<and>
     (\<not> ok \<longrightarrow> filter is_attempt_mark (added w w') =
        [Warn 1, Sleep 1, Warn 2, Sleep 1, Warn 3, GaveUp p])"
proof -
  from assms have a0: "attempts [0, 1, 2] 3 p w = (ok, w')" by (simp add: safe_rmtree_unfold)
  from attempts_step [OF a0] show ?thesis
  proof (elim disjE exE conjE)
    fix ext assume "ok" "trace w' = trace w @ ext" "filter is_attempt_mark ext = []"
      "length (filter is_removal ext) \<le> 1"
    then show ?thesis by (simp add: added_append)
  next
    fix e1 w1 assume 1: "trace w1 = trace w @ e1 @ Warn (0 + 1) # (if int 0 < int 3 - 1 then [Sleep 1] else [])"
      "filter is_attempt_mark e1 = []" "length (filter is_removal e1) \<le> 1"
      and a1: "attempts [1, 2] 3 p w1 = (ok, w')"
    from 1(1) have t1: "trace w1 = trace w @ e1 @ [Warn 1, Sleep 1]" by simp
    from attempts_step [OF a1] show ?thesis
    proof (elim disjE exE conjE)
      fix ext assume "ok" "trace w' = trace w1 @ ext" "filter is_attempt_mark ext = []"
        "length (filter is_removal ext) \<le> 1"
      then have "ok" "trace w' = trace w @ (e1 @ [Warn 1, Sleep 1] @ ext)"
        using t1 by simp_all
      then have "ok" "added w w' = e1 @ [Warn 1, Sleep 1] @ ext" by (simp_all add: added_append)
      then show ?thesis
        using 1(2,3) \<open>filter is_attempt_mark ext = []\<close> \<open>length (filter is_removal ext) \<le> 1\<close>
        by (simp add: marks_simps)
    next
      fix e2 w2 assume 2: "trace w2 = trace w1 @ e2 @ Warn (1 + 1) # (if int 1 < int 3 - 1 then [Sleep 1] else [])"
        "filter is_attempt_mark e2 = []" "length (filter is_removal e2) \<le> 1"
        and a2: "attempts [2] 3 p w2 = (ok, w')"
      from 2(1) t1 have t2: "trace w2 = trace w @ e1 @ [Warn 1, Sleep 1] @ e2 @ [Warn 2, Sleep 1]"
        by simp
      from attempts_step [OF a2] show ?thesis
      proof (elim disjE exE conjE)
        fix ext assume "ok" "trace w' = trace w2 @ ext" "filter is_attempt_mark ext = []"
          "length (filter is_removal ext) \<le> 1"
        then have "ok" "trace w' = trace w @ (e1 @ [Warn 1, Sleep 1] @ e2 @ [Warn 2, Sleep 1] @ ext)"
          using t2 by simp_all
        then have "ok" "added w w' = e1 @ [Warn 1, Sleep 1] @ e2 @ [Warn 2, Sleep 1] @ ext"
          by (simp_all add: added_append)
        then show ?thesis
          using 1(2,3) 2(2,3) \<open>filter is_attempt_mark ext = []\<close> \<open>length (filter is_removal ext) \<le> 1\<close>
          by (simp add: marks_simps)
      next
        fix e3 w3 assume 3: "trace w3 = trace w2 @ e3 @ Warn (2 + 1) # (if int 2 < int 3 - 1 then [Sleep 1] else [])"
          "filter is_attempt_mark e3 = []" "length (filter is_removal e3) \<le> 1"
          and a3: "attempts [] 3 p w3 = (ok, w')"
        from 3(1) t2 have t3: "trace w3 = trace w @ e1 @ [Warn 1, Sleep 1] @ e2 @ [Warn 2, Sleep 1] @ e3 @ [Warn 3]"
          by simp
        from attempts_Nil [OF a3] have "\<not> ok" "trace w' = trace w3 @ [GaveUp p]" by simp_all
        then have "\<not> ok"
          "trace w' = trace w @ (e1 @ [Warn 1, Sleep 1] @ e2 @ [Warn 2, Sleep 1] @ e3 @ [Warn 3, GaveUp p])"
          using t3 by simp_all
        then have "\<not> ok"
          "added w w' = e1 @ [Warn 1, Sleep 1] @ e2 @ [Warn 2, Sleep 1] @ e3 @ [Warn 3, GaveUp p]"
          by (simp_all add: added_append)
        then show ?thesis using 1(2,3) 2(2,3) 3(2,3) by (simp add: marks_simps)
      qed
    qed
  qed
qed

lemma locked_run:
  "fst (safe_rmtree ''/srv/app/temp_repos/widgets'' locked_world) = False"
  by (simp add: safe_rmtree_unfold locked_world_def sample_world_def try_remove_def path_join_def
      git_gc_def rmtree_def emit_def Let_def)

theorem safe_rmtree_bounded_retries_witness:
  "safe_rmtree ''/srv/app/temp_repos/widgets'' locked_world =
     (False, snd (safe_rmtree ''/srv/app/temp_repos/widgets'' locked_world)) \<and>
   filter is_attempt_mark (added locked_world
       (snd (safe_rmtree ''/srv/app/temp_repos/widgets'' locked_world))) =
     [Warn 1, Sleep 1, Warn 2, Sleep 1, Warn 3, GaveUp ''/srv/app/temp_repos/widgets'']"
proof -
  have h: "safe_rmtree ''/srv/app/temp_repos/widgets'' locked_world =
     (False, snd (safe_rmtree ''/srv/app/temp_repos/widgets'' locked_world))"
    using locked_run by (simp add: prod_eq_iff)
  from safe_rmtree_bounded_retries [OF h] h show ?thesis by simp
qed

theorem safe_rmtree_idempotent_witness:
  "''/srv/app/temp_repos/widgets'' \<notin> present sample_world \<and>
   safe_rmtree ''/srv/app/temp_repos/widgets'' sample_world = (True, sample_world) \<and>
   set (gc_script cloned_world) \<subseteq> {None} \<and> set (rm_script cloned_world) \<subseteq> {None} \<and>
   safe_rmtree ''/srv/app/temp_repos/widgets'' cloned_world =
     (True, snd (safe_rmtree ''/srv/app/temp_repos/widgets'' cloned_world)) \<and>
   ''/srv/app/temp_repos/widgets'' \<notin>
     present (snd (safe_rmtree ''/srv/app/temp_repos/widgets'' cloned_world)) \<and>
   safe_rmtree ''/srv/app/temp_repos/widgets''
     (snd (safe_rmtree ''/srv/app/temp_repos/widgets'' cloned_world)) =
     (True, snd (safe_rmtree ''/srv/app/temp_repos/widgets'' cloned_world))"
proof -
  have a: "''/srv/app/temp_repos/widgets'' \<notin> present sample_world"
    by (simp add: sample_world_def)
  have s: "set (gc_script cloned_world) \<subseteq> {None} \<and> set (rm_script cloned_world) \<subseteq> {None}"
    by (simp add: cloned_world_def sample_world_def)
  note t1 = safe_rmtree_idempotent [of "''/srv/app/temp_repos/widgets''" sample_world sample_world]
  note t2 = safe_rmtree_idempotent [of "''/srv/app/temp_repos/widgets''" cloned_world
      "snd (safe_rmtree ''/srv/app/temp_repos/widgets'' cloned_world)"]
  from t2 s have "fst (safe_rmtree ''/srv/app/temp_repos/widgets'' cloned_world)" by blast
  then have h: "safe_rmtree ''/srv/app/temp_repos/widgets'' cloned_world =
     (True, snd (safe_rmtree ''/srv/app/temp_repos/widgets'' cloned_world))"
    by (simp add: prod_eq_iff)
  from t1 a t2 s h show ?thesis by blast
qed

section \<open>Properties of the Repository Acquirer\<close>

lemma git_clone_trace:
  assumes "git_clone url p w = (r, w3)"
  shows "trace w3 = trace w @ [GitClone url p]"
proof (cases "case clone_script w of [] \<Rightarrow> Inr ([], True) | x # _ \<Rightarrow> x")
  case (Inl e)
  with assms show ?thesis by (auto simp: git_clone_def emit_def Let_def)
next
  case (Inr sc)
  obtain stderr created where "sc = (stderr, created)" by (cases sc)
  with Inr assms show ?thesis by (auto simp: git_clone_def emit_def Let_def split: if_splits)
qed

lemma clone_attempt_last:
  assumes "clone_attempt owner repo w = (Inr stderr, w3)"
  shows "last (trace w3) = GitClone (clone_url_of owner repo) (repo_path_of w repo)"
proof -
  obtain m w1 where m: "makedirs (TEMP_REPOS_DIR w) w = (m, w1)"
    by (cases "makedirs (TEMP_REPOS_DIR w) w")
  show ?thesis
  proof (cases m)
    case (Some e)
    with assms m show ?thesis by (simp add: clone_attempt_def)
  next
    case None
    with assms m obtain w2 where
      "git_clone (clone_url_of owner repo) (repo_path_of w repo) w2 = (Inr stderr, w3)"
      by (auto simp: clone_attempt_def Let_def)
    from git_clone_trace [OF this] show ?thesis by simp
  qed
qed

lemma git_restore_facts:
  assumes "git_restore p w = (r, w4)"
  shows "trace w4 = trace w @ [GitRestore p]" "present w4 = present w"
  using assms by (auto simp: git_restore_def emit_def split: list.splits)

lemma clone_repo_Inl:
  "clone_attempt owner repo w = (Inl e, w3) \<Longrightarrow> clone_repo owner repo w = (Inl e, w3)"
  by (simp add: clone_repo_def Let_def)

lemma clone_repo_absent:
  "clone_attempt owner repo w = (Inr stderr, w3) \<Longrightarrow> repo_path_of w repo \<notin> present w3 \<Longrightarrow>
   clone_repo owner repo w = (Inl (Exception (''Failed to clone repository: '' @ stderr)), w3)"
  by (simp add: clone_repo_def Let_def)

lemma clone_repo_plain:
  "clone_attempt owner repo w = (Inr stderr, w3) \<Longrightarrow> repo_path_of w repo \<in> present w3 \<Longrightarrow>
   \<not> checkout_failed stderr \<Longrightarrow> clone_repo owner repo w = (Inr (repo_path_of w repo), w3)"
  by (simp add: clone_repo_def Let_def)

lemma clone_repo_restore:
  "clone_attempt owner repo w = (Inr stderr, w3) \<Longrightarrow> repo_path_of w repo \<in> present w3 \<Longrightarrow>
   checkout_failed stderr \<Longrightarrow> git_restore (repo_path_of w repo) w3 = (r, w4) \<Longrightarrow>
   clone_repo owner repo w =
     (case r of None \<Rightarrow> Inr (repo_path_of w repo) | Some x \<Rightarrow> Inl x, w4)"
  by (cases r) (simp_all add: clone_repo_def Let_def)

text \<open>
  Claim C4, as the code has it. An exception of \<open>os.makedirs\<close> or of the start of the
  clone process leaves \<open>clone_repo\<close> as it is. When the clone process has run, with
  \<open>w3\<close> the world right after it (the last action then is the clone) and \<open>stderr\<close> its
  standard error text: if the target directory does not exist in \<open>w3\<close>, \<open>clone_repo\<close>
  raises the clone failure with that text; if it exists and the text reports no failed
  checkout, it returns the path and does nothing else; if it exists and the text reports
  a failed checkout, it runs one restore of the working tree, which leaves the directory
  in place, and returns the path, unless the restore cannot be started, whose exception
  it then raises. So, when the restore can be started, \<open>clone_repo\<close> raises if and only
  if the target directory does not exist after the clone.
\<close>

theorem clone_repo_outcome:
  "(clone_attempt owner repo w = (Inl e, w3) \<longrightarrow> clone_repo owner repo w = (Inl e, w3)) \<and>
   (clone_attempt owner repo w = (Inr stderr, w3) \<longrightarrow>
      last (trace w3) = GitClone (clone_url_of owner repo) (repo_path_of w repo) \<and>
      (repo_path_of w repo \<notin> present w3 \<longrightarrow>
         clone_repo owner repo w =
           (Inl (Exception (''Failed to clone repository: '' @ stderr)), w3)) \<and>
      (repo_path_of w repo \<in> present w3 \<and> \<not> checkout_failed stderr \<longrightarrow>
         clone_repo owner repo w = (Inr (repo_path_of w repo), w3)) \<and>
      (repo_path_of w repo \<in> present w3 \<and> checkout_failed stderr \<and>
       git_restore (repo_path_of w repo) w3 = (r, w4) \<longrightarrow>
         trace w4 = trace w3 @ [GitRestore (repo_path_of w repo)] \<and>
         present w4 = present w3 \<and>
         clone_repo owner repo w =
           (case r of None \<Rightarrow> Inr (repo_path_of w repo) | Some x \<Rightarrow> Inl x, w4)) \<and>
      (fst (git_restore (repo_path_of w repo) w3) = None \<longrightarrow>
         ((\<exists>x. fst (clone_repo owner repo w) = Inl x) \<longleftrightarrow>
            repo_path_of w repo \<notin> present w3)))"
proof (intro conjI impI)
  assume "clone_attempt owner repo w = (Inl e, w3)"
  then show "clone_repo owner repo w = (Inl e, w3)" by (rule clone_repo_Inl)
next
  assume a: "clone_attempt owner repo w = (Inr stderr, w3)"
  then show "last (trace w3) = GitClone (clone_url_of owner repo) (repo_path_of w repo)"
    by (rule clone_attempt_last)
next
  assume "clone_attempt owner repo w = (Inr stderr, w3)" "repo_path_of w repo \<notin> present w3"
  then show "clone_repo owner repo w =
      (Inl (Exception (''Failed to clone repository: '' @ stderr)), w3)"
    by (rule clone_repo_absent)
next
  assume "clone_attempt owner repo w = (Inr stderr, w3)"
    "repo_path_of w repo \<in> present w3 \<and> \<not> checkout_failed stderr"
  then show "clone_repo owner repo w = (Inr (repo_path_of w repo), w3)"
    using clone_repo_plain by blast
next
  assume a: "clone_attempt owner repo w = (Inr stderr, w3)"
    and b: "repo_path_of w repo \<in> present w3 \<and> checkout_failed stderr \<and>
       git_restore (repo_path_of w repo) w3 = (r, w4)"
  from b have g: "git_restore (repo_path_of w repo) w3 = (r, w4)" by simp
  from git_restore_facts [OF g]
  show "trace w4 = trace w3 @ [GitRestore (repo_path_of w repo)]" "present w4 = present w3"
    by simp_all
  from a b show "clone_repo owner repo w =
      (case r of None \<Rightarrow> Inr (repo_path_of w repo) | Some x \<Rightarrow> Inl x, w4)"
    using clone_repo_restore by blast
next
  assume a: "clone_attempt owner repo w = (Inr stderr, w3)"
    and n: "fst (git_restore (repo_path_of w repo) w3) = None"
  show "(\<exists>x. fst (clone_repo owner repo w) = Inl x) \<longleftrightarrow> repo_path_of w repo \<notin> present w3"
  proof (cases "repo_path_of w repo \<in> present w3")
    case False
    with clone_repo_absent [OF a] show ?thesis by simp
  next
    case True
    show ?thesis
    proof (cases "checkout_failed stderr")
      case False
      with clone_repo_plain [OF a True] True show ?thesis by simp
    next
      case cf: True
      obtain w4 where "git_restore (repo_path_of w repo) w3 = (None, w4)"
        using n by (cases "git_restore (repo_path_of w repo) w3") simp
      from clone_repo_restore [OF a True cf this] True show ?thesis by simp
    qed
  qed
qed

lemma sample_paths:
  "repo_path_of sample_world ''widgets'' = ''/srv/app/temp_repos/widgets''"
  "repo_path_of no_such_repo_world ''widgets'' = ''/srv/app/temp_repos/widgets''"
  "repo_path_of checkout_trouble_world ''widgets'' = ''/srv/app/temp_repos/widgets''"
  "repo_path_of no_git_world ''widgets'' = ''/srv/app/temp_repos/widgets''"
  "repo_path_of restore_fails_world ''widgets'' = ''/srv/app/temp_repos/widgets''"
  by (simp_all add: repo_path_of_def TEMP_REPOS_DIR_def path_join_def sample_world_def
      no_such_repo_world_def checkout_trouble_world_def no_git_world_def restore_fails_world_def)

lemma clone_attempt_no_git:
  "fst (clone_attempt ''acme'' ''widgets'' no_git_world) =
     Inl (OSError ''[Errno 2] No such file or directory: git'')"
  "''/srv/app/temp_repos/widgets'' \<notin> present (snd (clone_attempt ''acme'' ''widgets'' no_git_world))"
  by (simp_all add: clone_attempt_def no_git_world_def sample_world_def repo_path_of_def
      TEMP_REPOS_DIR_def path_join_def makedirs_def emit_def git_clone_def Let_def)

lemma clone_attempt_no_such_repo:
  "fst (clone_attempt ''acme'' ''widgets'' no_such_repo_world) = Inr ''fatal: repository not found''"
  "''/srv/app/temp_repos/widgets'' \<notin>
     present (snd (clone_attempt ''acme'' ''widgets'' no_such_repo_world))"
  by (simp_all add: clone_attempt_def no_such_repo_world_def sample_world_def repo_path_of_def
      TEMP_REPOS_DIR_def path_join_def makedirs_def emit_def git_clone_def Let_def)

lemma clone_attempt_sample:
  "fst (clone_attempt ''acme'' ''widgets'' sample_world) = Inr []"
  "''/srv/app/temp_repos/widgets'' \<in> present (snd (clone_attempt ''acme'' ''widgets'' sample_world))"
  by (simp_all add: clone_attempt_def sample_world_def repo_path_of_def
      TEMP_REPOS_DIR_def path_join_def makedirs_def emit_def git_clone_def Let_def)

lemma clone_attempt_restore_fails:
  "fst (clone_attempt ''acme'' ''widgets'' restore_fails_world) =
     Inr ''warning: Clone succeeded, but checkout failed.''"
  "''/srv/app/temp_repos/widgets'' \<in>
     present (snd (clone_attempt ''acme'' ''widgets'' restore_fails_world))"
  "fst (git_restore ''/srv/app/temp_repos/widgets''
     (snd (clone_attempt ''acme'' ''widgets'' restore_fails_world))) =
     Some (OSError ''[Errno 12] Cannot allocate memory'')"
  by (simp_all add: clone_attempt_def restore_fails_world_def sample_world_def repo_path_of_def
      TEMP_REPOS_DIR_def path_join_def makedirs_def emit_def git_clone_def git_restore_def Let_def)

lemma clone_attempt_trouble:
  "''/srv/app/temp_repos/widgets'' \<in>
     present (snd (clone_attempt ''acme'' ''widgets'' checkout_trouble_world))"
  "fst (git_restore ''/srv/app/temp_repos/widgets''
     (snd (clone_attempt ''acme'' ''widgets'' checkout_trouble_world))) = None"
  by (simp_all add: clone_attempt_def checkout_trouble_world_def sample_world_def repo_path_of_def
      TEMP_REPOS_DIR_def path_join_def makedirs_def emit_def git_clone_def git_restore_def Let_def)

lemma checkout_failed_trouble:
  "checkout_failed (case fst (clone_attempt ''acme'' ''widgets'' checkout_trouble_world) of
      Inl e \<Rightarrow> [] | Inr stderr \<Rightarrow> stderr)"
  by code_simp

lemma clone_attempt_trouble_Inr:
  "\<exists>stderr. fst (clone_attempt ''acme'' ''widgets'' checkout_trouble_world) = Inr stderr"
  by (simp add: clone_attempt_def checkout_trouble_world_def sample_world_def repo_path_of_def
      TEMP_REPOS_DIR_def path_join_def makedirs_def emit_def git_clone_def Let_def)

lemma checkout_failed_warning:
  "checkout_failed ''warning: Clone succeeded, but checkout failed.''"
  by code_simp

lemma not_checkout_failed_Nil: "\<not> checkout_failed []"
  by (simp add: checkout_failed_def lower_def)

text \<open>
  Without \<open>git\<close> the call raises the exception of the start of the process, not the
  clone failure, while the target directory does not exist; and when the restore cannot
  be started the call raises although the target directory exists.
\<close>

theorem clone_repo_outcome_counterexample:
  "fst (clone_repo ''acme'' ''widgets'' no_git_world) =
     Inl (OSError ''[Errno 2] No such file or directory: git'') \<and>
   repo_path_of no_git_world ''widgets'' \<notin>
     present (snd (clone_repo ''acme'' ''widgets'' no_git_world)) \<and>
   fst (clone_repo ''acme'' ''widgets'' restore_fails_world) =
     Inl (OSError ''[Errno 12] Cannot allocate memory'') \<and>
   repo_path_of restore_fails_world ''widgets'' \<in>
     present (snd (clone_repo ''acme'' ''widgets'' restore_fails_world))"
proof -
  let ?a = "clone_attempt ''acme'' ''widgets'' no_git_world"
  have "?a = (Inl (OSError ''[Errno 2] No such file or directory: git''), snd ?a)"
    using clone_attempt_no_git(1) by (simp add: prod_eq_iff)
  then have 1: "clone_repo ''acme'' ''widgets'' no_git_world =
      (Inl (OSError ''[Errno 2] No such file or directory: git''), snd ?a)"
    by (rule clone_repo_Inl)
  let ?b = "clone_attempt ''acme'' ''widgets'' restore_fails_world"
  let ?g = "git_restore ''/srv/app/temp_repos/widgets'' (snd ?b)"
  have b: "?b = (Inr ''warning: Clone succeeded, but checkout failed.'', snd ?b)"
    using clone_attempt_restore_fails(1) by (simp add: prod_eq_iff)
  have g: "git_restore (repo_path_of restore_fails_world ''widgets'') (snd ?b) =
      (Some (OSError ''[Errno 12] Cannot allocate memory''), snd ?g)"
    using clone_attempt_restore_fails(3) by (simp add: prod_eq_iff sample_paths)
  have p: "repo_path_of restore_fails_world ''widgets'' \<in> present (snd ?b)"
    using clone_attempt_restore_fails(2) by (simp add: sample_paths)
  have 2: "clone_repo ''acme'' ''widgets'' restore_fails_world =
      (Inl (OSError ''[Errno 12] Cannot allocate memory''), snd ?g)"
    using clone_repo_restore [OF b p checkout_failed_warning g] by simp
  have "present (snd ?g) = present (snd ?b)"
    using git_restore_facts(2) [of "''/srv/app/temp_repos/widgets''" "snd ?b" "fst ?g" "snd ?g"]
    by simp
  with 1 2 clone_attempt_no_git(2) clone_attempt_restore_fails(2) show ?thesis
    by (simp add: sample_paths)
qed

theorem clone_repo_outcome_witness:
  "fst (clone_attempt ''acme'' ''widgets'' no_git_world) =
     Inl (OSError ''[Errno 2] No such file or directory: git'') \<and>
   fst (clone_repo ''acme'' ''widgets'' no_git_world) =
     Inl (OSError ''[Errno 2] No such file or directory: git'') \<and>
   fst (clone_attempt ''acme'' ''widgets'' no_such_repo_world) =
     Inr ''fatal: repository not found'' \<and>
   repo_path_of no_such_repo_world ''widgets'' \<notin>
     present (snd (clone_attempt ''acme'' ''widgets'' no_such_repo_world)) \<and>
   fst (clone_repo ''acme'' ''widgets'' no_such_repo_world) =
     Inl (Exception ''Failed to clone repository: fatal: repository not found'') \<and>
   (\<exists>x. fst (clone_repo ''acme'' ''widgets'' no_such_repo_world) = Inl x) \<and>
   repo_path_of sample_world ''widgets'' \<in>
     present (snd (clone_attempt ''acme'' ''widgets'' sample_world)) \<and>
   \<not> checkout_failed [] \<and>
   fst (clone_repo ''acme'' ''widgets'' sample_world) = Inr (repo_path_of sample_world ''widgets'') \<and>
   repo_path_of restore_fails_world ''widgets'' \<in>
     present (snd (clone_attempt ''acme'' ''widgets'' restore_fails_world)) \<and>
   checkout_failed ''warning: Clone succeeded, but checkout failed.'' \<and>
   fst (clone_repo ''acme'' ''widgets'' restore_fails_world) =
     Inl (OSError ''[Errno 12] Cannot allocate memory'') \<and>
   repo_path_of checkout_trouble_world ''widgets'' \<in>
     present (snd (clone_attempt ''acme'' ''widgets'' checkout_trouble_world)) \<and>
   fst (clone_repo ''acme'' ''widgets'' checkout_trouble_world) =
     Inr (repo_path_of checkout_trouble_world ''widgets'') \<and>
   trace (snd (clone_repo ''acme'' ''widgets'' checkout_trouble_world)) =
     trace (snd (clone_attempt ''acme'' ''widgets'' checkout_trouble_world)) @
     [GitRestore (repo_path_of checkout_trouble_world ''widgets'')]"
proof -
  let ?c = "clone_attempt ''acme'' ''widgets'' checkout_trouble_world"
  let ?gc = "git_restore (repo_path_of checkout_trouble_world ''widgets'') (snd ?c)"
  obtain err where c: "?c = (Inr err, snd ?c)"
    using clone_attempt_trouble_Inr by (auto simp: prod_eq_iff)
  have cf: "checkout_failed err" using checkout_failed_trouble c by (simp add: prod_eq_iff)
  have cp: "repo_path_of checkout_trouble_world ''widgets'' \<in> present (snd ?c)"
    using clone_attempt_trouble(1) by (simp add: sample_paths)
  have cg: "?gc = (None, snd ?gc)"
    using clone_attempt_trouble(2) by (simp add: prod_eq_iff sample_paths)
  note t5 = clone_repo_outcome [of "''acme''" "''widgets''" checkout_trouble_world _ "snd ?c" err
      None "snd ?gc"]
  have c5: "clone_repo ''acme'' ''widgets'' checkout_trouble_world =
      (Inr (repo_path_of checkout_trouble_world ''widgets''), snd ?gc)"
    "trace (snd ?gc) = trace (snd ?c) @ [GitRestore (repo_path_of checkout_trouble_world ''widgets'')]"
    using t5 c cp cf cg by simp_all
  let ?a = "clone_attempt ''acme'' ''widgets'' no_git_world"
  let ?n = "clone_attempt ''acme'' ''widgets'' no_such_repo_world"
  let ?s = "clone_attempt ''acme'' ''widgets'' sample_world"
  let ?b = "clone_attempt ''acme'' ''widgets'' restore_fails_world"
  let ?g = "git_restore (repo_path_of restore_fails_world ''widgets'') (snd ?b)"
  let ?gn = "git_restore (repo_path_of no_such_repo_world ''widgets'') (snd ?n)"
  have a: "?a = (Inl (OSError ''[Errno 2] No such file or directory: git''), snd ?a)"
    using clone_attempt_no_git(1) by (simp add: prod_eq_iff)
  have n: "?n = (Inr ''fatal: repository not found'', snd ?n)"
    using clone_attempt_no_such_repo(1) by (simp add: prod_eq_iff)
  have np: "repo_path_of no_such_repo_world ''widgets'' \<notin> present (snd ?n)"
    using clone_attempt_no_such_repo(2) by (simp add: sample_paths)
  have ng: "fst ?gn = None"
    by (simp add: git_restore_def clone_attempt_def no_such_repo_world_def sample_world_def
        repo_path_of_def TEMP_REPOS_DIR_def path_join_def makedirs_def emit_def git_clone_def
        Let_def)
  have s: "?s = (Inr [], snd ?s)"
    using clone_attempt_sample(1) by (simp add: prod_eq_iff)
  have sp: "repo_path_of sample_world ''widgets'' \<in> present (snd ?s)"
    using clone_attempt_sample(2) by (simp add: sample_paths)
  have b: "?b = (Inr ''warning: Clone succeeded, but checkout failed.'', snd ?b)"
    using clone_attempt_restore_fails(1) by (simp add: prod_eq_iff)
  have bp: "repo_path_of restore_fails_world ''widgets'' \<in> present (snd ?b)"
    using clone_attempt_restore_fails(2) by (simp add: sample_paths)
  have g: "?g = (Some (OSError ''[Errno 12] Cannot allocate memory''), snd ?g)"
    using clone_attempt_restore_fails(3) by (simp add: prod_eq_iff sample_paths)
  note t1 = clone_repo_outcome [of "''acme''" "''widgets''" no_git_world
      "OSError ''[Errno 2] No such file or directory: git''" "snd ?a"]
  note t2 = clone_repo_outcome [of "''acme''" "''widgets''" no_such_repo_world _
      "snd ?n" "''fatal: repository not found''"]
  note t3 = clone_repo_outcome [of "''acme''" "''widgets''" sample_world _ "snd ?s" "[]"]
  note t4 = clone_repo_outcome [of "''acme''" "''widgets''" restore_fails_world _ "snd ?b"
      "''warning: Clone succeeded, but checkout failed.''"
      "Some (OSError ''[Errno 12] Cannot allocate memory'')" "snd ?g"]
  have c1: "fst (clone_repo ''acme'' ''widgets'' no_git_world) =
      Inl (OSError ''[Errno 2] No such file or directory: git'')"
    using t1 [THEN conjunct1, THEN mp, OF a] by simp
  have c2: "fst (clone_repo ''acme'' ''widgets'' no_such_repo_world) =
      Inl (Exception ''Failed to clone repository: fatal: repository not found'')"
    using t2 n np by simp
  have c2': "\<exists>x. fst (clone_repo ''acme'' ''widgets'' no_such_repo_world) = Inl x"
    using t2 n np ng by blast
  have c3: "fst (clone_repo ''acme'' ''widgets'' sample_world) =
      Inr (repo_path_of sample_world ''widgets'')"
    using t3 s sp not_checkout_failed_Nil by simp
  have c4: "fst (clone_repo ''acme'' ''widgets'' restore_fails_world) =
      Inl (OSError ''[Errno 12] Cannot allocate memory'')"
    using t4 b bp checkout_failed_warning g by simp
  from c1 c2 c2' c3 c4 c5 cp clone_attempt_no_git(1) clone_attempt_no_such_repo(1) np sp bp
    not_checkout_failed_Nil checkout_failed_warning
  show ?thesis by simp
qed

section \<open>Properties of the instruction templates\<close>

lemma sublist_piece:
  assumes "x \<in> set xss"
  shows "sublist x (concat xss)"
proof -
  from assms obtain as bs where "xss = as @ x # bs" by (auto simp: in_set_conv_decomp)
  then have "concat xss = concat as @ x @ concat bs" by simp
  then show ?thesis by (metis sublist_appendI)
qed

lemma diagram_rule1:
  "sublist ''- Each node definition MUST be on a SINGLE LINE\<newline>'' (diagram_prompt owner repo repo_path)"
  unfolding diagram_prompt_def by (rule sublist_piece) simp

lemma diagram_rule2:
  "sublist ''- Node labels should be SHORT (1-5 words max)\<newline>'' (diagram_prompt owner repo repo_path)"
  unfolding diagram_prompt_def by (rule sublist_piece) simp

lemma diagram_rule3:
  "sublist ''- Do NOT put newlines inside square brackets []\<newline>'' (diagram_prompt owner repo repo_path)"
  unfolding diagram_prompt_def by (rule sublist_piece) simp

lemma diagram_example1:
  "sublist ''CORRECT example:\<newline>'' (diagram_prompt owner repo repo_path)"
  unfolding diagram_prompt_def by (rule sublist_piece) simp

lemma diagram_example2:
  "sublist ''WRONG example (DO NOT DO THIS):\<newline>'' (diagram_prompt owner repo repo_path)"
  unfolding diagram_prompt_def by (rule sublist_piece) simp

lemma get_diagram: "get_prompt (analysis_prompts owner repo repo_path) ''diagram'' d = diagram_prompt owner repo repo_path"
  by (simp add: get_prompt_def analysis_prompts_def)

lemma get_diagram_app: "get_prompt (analysis_prompts_app owner repo) ''diagram'' d = diagram_prompt_app owner repo"
  by (simp add: get_prompt_def analysis_prompts_app_def)

text \<open>
  Claim C9, at an input on which \<open>app.py\<close> departs from it. The diagram instruction of
  \<open>advanced_app.py\<close> holds the three format rules and the two worked examples, whatever
  the owner, the name and the path (the five lemmas above). The diagram instruction of
  \<open>app.py\<close> for \<open>acme/widgets\<close> holds none of the rules, no word about labels and no
  example.
\<close>

theorem diagram_prompt_app_lacks_rules:
  "\<not> sublist ''SINGLE LINE'' (get_prompt (analysis_prompts_app ''acme'' ''widgets'') ''diagram''
        (overview_prompt_app ''acme'' ''widgets'')) \<and>
   \<not> sublist ''SHORT'' (get_prompt (analysis_prompts_app ''acme'' ''widgets'') ''diagram''
        (overview_prompt_app ''acme'' ''widgets'')) \<and>
   \<not> sublist ''newlines'' (get_prompt (analysis_prompts_app ''acme'' ''widgets'') ''diagram''
        (overview_prompt_app ''acme'' ''widgets'')) \<and>
   \<not> sublist ''label'' (get_prompt (analysis_prompts_app ''acme'' ''widgets'') ''diagram''
        (overview_prompt_app ''acme'' ''widgets'')) \<and>
   \<not> sublist ''example'' (get_prompt (analysis_prompts_app ''acme'' ''widgets'') ''diagram''
        (overview_prompt_app ''acme'' ''widgets''))"
  unfolding get_diagram_app by (simp add: diagram_prompt_app_def sublist_code)

section \<open>Properties of the Session Orchestrator and the Request Handler\<close>

lemma ex_parse: "parse_github_url ''acme/widgets'' = (Some ''acme'', Some ''widgets'')"
  by code_simp

lemma ex_parse_bad: "parse_github_url ''not a url'' = (None, None)"
  by code_simp

lemma open_session_ok:
  assumes "start_raises eng = None" "create_raises eng = None"
  shows "open_session eng w = (None, emit On (emit (CreateSession ''gpt-4.1'') (emit ClientStart w)))"
  using assms by (simp add: open_session_def Let_def)

lemma send_and_wait_Returns:
  "send_and_wait eng prompt w = (Returns st, w2) \<Longrightarrow> st = handle_all initial_state (events eng)"
  by (auto simp: send_and_wait_def Let_def split: option.splits if_splits)

lemma send_and_wait_send_raises:
  "send_raises eng = Some e \<Longrightarrow> send_and_wait eng prompt w = (Raises e, emit (Send prompt) w)"
  by (simp add: send_and_wait_def Let_def)

lemma send_and_wait_done:
  assumes "send_raises eng = None" "wait_raises eng = None" "SessionIdle \<in> set (events eng)"
  shows "send_and_wait eng prompt w =
     (Returns (handle_all initial_state (events eng)), emit Wait (emit (Send prompt) w))"
  using assms by (simp add: send_and_wait_def Let_def handle_all_done)

lemma send_and_wait_not_Hangs:
  assumes "send_raises eng \<noteq> None \<or> wait_raises eng \<noteq> None \<or> SessionIdle \<in> set (events eng)"
  shows "fst (send_and_wait eng prompt w) \<noteq> Hangs"
  using assms by (auto simp: send_and_wait_def Let_def handle_all_done split: option.splits)

lemma teardown_ok:
  assumes "destroy_raises eng = None" "stop_raises eng = None"
  shows "teardown eng w = (None, emit ClientStop (emit SessionDestroy w))"
  using assms by (simp add: teardown_def Let_def)

lemma payload_keys:
  "map_of invalid_url_result ''error'' = None" "map_of invalid_url_result ''owner'' = None"
  "map_of (clone_failed_result e) ''error'' = None" "map_of (clone_failed_result e) ''owner'' = None"
  "map_of (final_result st ow rp) ''error'' = None"
  "map_of (final_result st ow rp) ''response'' = Some (JStr (response_text st))"
  by (simp_all add: invalid_url_result_def clone_failed_result_def final_result_def)

lemma analyze_github_repo_Returns:
  assumes "analyze_github_repo url t eng w = (Returns r, w')"
  shows "r = invalid_url_result \<or> (\<exists>e. r = clone_failed_result e) \<or>
     (\<exists>ow rp. r = final_result (handle_all initial_state (events eng)) ow rp)"
proof -
  obtain owner repo where p: "parse_github_url url = (owner, repo)" by (cases "parse_github_url url")
  show ?thesis
  proof (cases "\<not> truthy owner \<or> \<not> truthy repo")
    case True
    with assms p show ?thesis by (simp add: analyze_github_repo_def)
  next
    case False
    obtain c w0 where c: "clone_repo (text_of owner) (text_of repo) w = (c, w0)"
      by (cases "clone_repo (text_of owner) (text_of repo) w")
    show ?thesis
    proof (cases c)
      case (Inl e)
      with assms p False c show ?thesis by (auto simp: analyze_github_repo_def)
    next
      case (Inr repo_path)
      obtain o1 w1 where os: "open_session eng w0 = (o1, w1)" by (cases "open_session eng w0")
      show ?thesis
      proof (cases o1)
        case (Some e)
        with assms p False c Inr os show ?thesis by (simp add: analyze_github_repo_def)
      next
        case None
        let ?prompt = "get_prompt (analysis_prompts (text_of owner) (text_of repo) repo_path) t
                        (overview_prompt (text_of owner) (text_of repo) repo_path)"
        obtain b w2 where sw: "send_and_wait eng ?prompt w1 = (b, w2)"
          by (cases "send_and_wait eng ?prompt w1")
        obtain td w3 where td: "teardown eng w2 = (td, w3)" by (cases "teardown eng w2")
        from assms p False c Inr os None sw td
        have "\<exists>st. b = Returns st \<and> r = final_result st (text_of owner) (text_of repo)"
          by (cases b; cases td) (auto simp: analyze_github_repo_def Let_def)
        then obtain st where "b = Returns st" "r = final_result st (text_of owner) (text_of repo)"
          by blast
        with sw send_and_wait_Returns show ?thesis by blast
      qed
    qed
  qed
qed

lemma analyze_github_repo_app_Returns:
  assumes "analyze_github_repo_app url t eng w = (Returns r, w')"
  shows "r = invalid_url_result \<or>
     (\<exists>ow rp. r = final_result (handle_all initial_state (events eng)) ow rp)"
proof -
  obtain owner repo where p: "parse_github_url url = (owner, repo)" by (cases "parse_github_url url")
  show ?thesis
  proof (cases "\<not> truthy owner \<or> \<not> truthy repo")
    case True
    with assms p show ?thesis by (simp add: analyze_github_repo_app_def)
  next
    case False
    obtain o1 w1 where os: "open_session eng w = (o1, w1)" by (cases "open_session eng w")
    show ?thesis
    proof (cases o1)
      case (Some e)
      with assms p False os show ?thesis by (simp add: analyze_github_repo_app_def)
    next
      case None
      let ?prompt = "get_prompt (analysis_prompts_app (text_of owner) (text_of repo)) t
                        (overview_prompt_app (text_of owner) (text_of repo))"
      obtain b w2 where sw: "send_and_wait eng ?prompt w1 = (b, w2)"
        by (cases "send_and_wait eng ?prompt w1")
      obtain td w3 where td: "teardown eng w2 = (td, w3)" by (cases "teardown eng w2")
      from assms p False os None sw td
      have "\<exists>st. b = Returns st \<and> r = final_result st (text_of owner) (text_of repo)"
        by (cases b; cases td) (auto simp: analyze_github_repo_app_def Let_def)
      then obtain st where "b = Returns st" "r = final_result st (text_of owner) (text_of repo)"
        by blast
      with sw send_and_wait_Returns show ?thesis by blast
    qed
  qed
qed

lemma join_nl_closed:
  "xs \<noteq> [] \<Longrightarrow> join_nl xs = concat (map (\<lambda>f. f @ ''\<newline>'') (butlast xs)) @ last xs"
  by (induction xs rule: join_nl.induct) simp_all

lemma response_text_handle_all:
  "response_text (handle_all initial_state evs) =
     (if List.map_filter final_message evs = [] then ''No response received.''
      else concat (map (\<lambda>f. f @ ''\<newline>'') (butlast (List.map_filter final_message evs))) @
           last (List.map_filter final_message evs))"
  by (simp add: response_text_def handle_all_response initial_state_def join_nl_closed)

text \<open>
  Claim C6. A result that carries the repository reference is the result of a completed
  run. Its response text is made of the final messages received, in the order of their
  arrival: every message but the last followed by one newline character, then the last
  message. When no final message was received it is the fixed text. This holds for
  both variants.
\<close>

theorem response_text_joined:
  "(analyze_github_repo url t eng w = (Returns r, w') \<and> map_of r ''owner'' \<noteq> None \<longrightarrow>
      map_of r ''response'' = Some (JStr
        (if List.map_filter final_message (events eng) = [] then ''No response received.''
         else concat (map (\<lambda>f. f @ ''\<newline>'')
                (butlast (List.map_filter final_message (events eng)))) @
              last (List.map_filter final_message (events eng))))) \<and>
   (analyze_github_repo_app url t eng w = (Returns r, w') \<and> map_of r ''owner'' \<noteq> None \<longrightarrow>
      map_of r ''response'' = Some (JStr
        (if List.map_filter final_message (events eng) = [] then ''No response received.''
         else concat (map (\<lambda>f. f @ ''\<newline>'')
                (butlast (List.map_filter final_message (events eng)))) @
              last (List.map_filter final_message (events eng)))))"
proof (intro conjI impI)
  assume a: "analyze_github_repo url t eng w = (Returns r, w') \<and> map_of r ''owner'' \<noteq> None"
  with analyze_github_repo_Returns [of url t eng w r w'] payload_keys(2,4)
  obtain ow rp where "r = final_result (handle_all initial_state (events eng)) ow rp" by auto
  then show "map_of r ''response'' = Some (JStr
        (if List.map_filter final_message (events eng) = [] then ''No response received.''
         else concat (map (\<lambda>f. f @ ''\<newline>'')
                (butlast (List.map_filter final_message (events eng)))) @
              last (List.map_filter final_message (events eng))))"
    by (simp only: payload_keys(6) response_text_handle_all)
next
  assume a: "analyze_github_repo_app url t eng w = (Returns r, w') \<and> map_of r ''owner'' \<noteq> None"
  with analyze_github_repo_app_Returns [of url t eng w r w'] payload_keys(2)
  obtain ow rp where "r = final_result (handle_all initial_state (events eng)) ow rp" by auto
  then show "map_of r ''response'' = Some (JStr
        (if List.map_filter final_message (events eng) = [] then ''No response received.''
         else concat (map (\<lambda>f. f @ ''\<newline>'')
                (butlast (List.map_filter final_message (events eng)))) @
              last (List.map_filter final_message (events eng))))"
    by (simp only: payload_keys(6) response_text_handle_all)
qed

lemma truthy_parts:
  assumes "parse_github_url url = (Some ow, Some rp)"
  shows "truthy (Some ow)" "truthy (Some rp)"
  using parse_shape [of url] assms by (auto simp: truthy_def seg_def)

lemma analyze_github_repo_app_success:
  assumes "parse_github_url url = (Some ow, Some rp)"
    and "start_raises eng = None" "create_raises eng = None" "send_raises eng = None"
      "wait_raises eng = None" "destroy_raises eng = None" "stop_raises eng = None"
    and "SessionIdle \<in> set (events eng)"
  shows "fst (analyze_github_repo_app url t eng w) =
     Returns (final_result (handle_all initial_state (events eng)) ow rp)"
  using assms truthy_parts [OF assms(1)]
  by (simp add: analyze_github_repo_app_def open_session_ok send_and_wait_done teardown_ok
      text_of_def)

lemma analyze_github_repo_success:
  assumes "parse_github_url url = (Some ow, Some rp)"
    and "fst (clone_repo ow rp w) = Inr p"
    and "start_raises eng = None" "create_raises eng = None" "send_raises eng = None"
      "wait_raises eng = None" "destroy_raises eng = None" "stop_raises eng = None"
    and "SessionIdle \<in> set (events eng)"
  shows "fst (analyze_github_repo url t eng w) =
     Returns (final_result (handle_all initial_state (events eng)) ow rp)"
proof -
  obtain w0 where "clone_repo ow rp w = (Inr p, w0)" using assms(2) by (cases "clone_repo ow rp w") simp
  then show ?thesis
    using assms truthy_parts [OF assms(1)]
    by (simp add: analyze_github_repo_def open_session_ok send_and_wait_done teardown_ok
      text_of_def)
qed

lemma sample_engine_simps:
  "start_raises sample_engine = None" "create_raises sample_engine = None"
  "send_raises sample_engine = None" "wait_raises sample_engine = None"
  "destroy_raises sample_engine = None" "stop_raises sample_engine = None"
  "events sample_engine = [AssistantMessage ''A widget library.'', SessionIdle]"
  by (simp_all add: sample_engine_def)

lemma failing_send_engine_simps:
  "start_raises failing_send_engine = None" "create_raises failing_send_engine = None"
  "send_raises failing_send_engine = Some (EngineError ''connection lost'')"
  "destroy_raises failing_send_engine = None" "stop_raises failing_send_engine = None"
  by (simp_all add: failing_send_engine_def sample_engine_def)

lemma clone_sample: "fst (clone_repo ''acme'' ''widgets'' sample_world) = Inr ''/srv/app/temp_repos/widgets''"
proof -
  let ?s = "clone_attempt ''acme'' ''widgets'' sample_world"
  have "?s = (Inr [], snd ?s)" using clone_attempt_sample(1) by (simp add: prod_eq_iff)
  moreover have "repo_path_of sample_world ''widgets'' \<in> present (snd ?s)"
    using clone_attempt_sample(2) by (simp add: sample_paths)
  ultimately show ?thesis
    using clone_repo_plain not_checkout_failed_Nil by (fastforce simp: sample_paths)
qed

lemma three_message_engine_simps:
  "start_raises three_message_engine = None" "create_raises three_message_engine = None"
  "send_raises three_message_engine = None" "wait_raises three_message_engine = None"
  "destroy_raises three_message_engine = None" "stop_raises three_message_engine = None"
  "events three_message_engine =
     [AssistantMessage ''First.'', AssistantMessageDelta (Some ''Sec''),
      AssistantMessage ''Second.'', ToolExecutionStart ''read_file'' (Some ''call_1''),
      AssistantMessage ''Third.'', SessionIdle]"
  by (simp_all add: three_message_engine_def sample_engine_def)

lemma silent_engine_simps:
  "start_raises silent_engine = None" "create_raises silent_engine = None"
  "send_raises silent_engine = None" "wait_raises silent_engine = None"
  "destroy_raises silent_engine = None" "stop_raises silent_engine = None"
  "events silent_engine = [SessionIdle]"
  by (simp_all add: silent_engine_def sample_engine_def)

theorem response_text_joined_witness:
  "fst (analyze_github_repo ''acme/widgets'' ''overview'' three_message_engine sample_world) =
     Returns (final_result (handle_all initial_state (events three_message_engine))
        ''acme'' ''widgets'') \<and>
   fst (analyze_github_repo_app ''acme/widgets'' ''overview'' three_message_engine sample_world) =
     Returns (final_result (handle_all initial_state (events three_message_engine))
        ''acme'' ''widgets'') \<and>
   map_of (final_result (handle_all initial_state (events three_message_engine))
        ''acme'' ''widgets'') ''owner'' \<noteq> None \<and>
   map_of (final_result (handle_all initial_state (events three_message_engine))
        ''acme'' ''widgets'') ''response'' =
     Some (JStr ''First.\<newline>Second.\<newline>Third.'') \<and>
   fst (analyze_github_repo ''acme/widgets'' ''overview'' silent_engine sample_world) =
     Returns (final_result (handle_all initial_state (events silent_engine))
        ''acme'' ''widgets'') \<and>
   map_of (final_result (handle_all initial_state (events silent_engine))
        ''acme'' ''widgets'') ''owner'' \<noteq> None \<and>
   map_of (final_result (handle_all initial_state (events silent_engine))
        ''acme'' ''widgets'') ''response'' = Some (JStr ''No response received.'')"
proof -
  let ?r = "final_result (handle_all initial_state (events three_message_engine))
      ''acme'' ''widgets''"
  let ?q = "final_result (handle_all initial_state (events silent_engine)) ''acme'' ''widgets''"
  let ?A = "analyze_github_repo ''acme/widgets'' ''overview'' three_message_engine sample_world"
  let ?B = "analyze_github_repo_app ''acme/widgets'' ''overview'' three_message_engine sample_world"
  let ?C = "analyze_github_repo ''acme/widgets'' ''overview'' silent_engine sample_world"
  have a: "fst ?A = Returns ?r"
    by (rule analyze_github_repo_success [OF ex_parse clone_sample])
       (simp_all add: three_message_engine_simps)
  have b: "fst ?B = Returns ?r"
    by (rule analyze_github_repo_app_success [OF ex_parse])
       (simp_all add: three_message_engine_simps)
  have c: "fst ?C = Returns ?q"
    by (rule analyze_github_repo_success [OF ex_parse clone_sample])
       (simp_all add: silent_engine_simps)
  have o: "map_of ?r ''owner'' \<noteq> None" "map_of ?q ''owner'' \<noteq> None"
    by (simp_all add: final_result_def)
  have a': "?A = (Returns ?r, snd ?A)" using a by (simp add: prod_eq_iff)
  have b': "?B = (Returns ?r, snd ?B)" using b by (simp add: prod_eq_iff)
  have c': "?C = (Returns ?q, snd ?C)" using c by (simp add: prod_eq_iff)
  note t1 = response_text_joined [of "''acme/widgets''" "''overview''" three_message_engine
      sample_world ?r "snd ?A", THEN conjunct1, THEN mp, OF conjI, OF a' o(1)]
  note t2 = response_text_joined [of "''acme/widgets''" "''overview''" three_message_engine
      sample_world ?r "snd ?B", THEN conjunct2, THEN mp, OF conjI, OF b' o(1)]
  note t3 = response_text_joined [of "''acme/widgets''" "''overview''" silent_engine
      sample_world ?q "snd ?C", THEN conjunct1, THEN mp, OF conjI, OF c' o(2)]
  have r3: "map_of ?r ''response'' = Some (JStr ''First.\<newline>Second.\<newline>Third.'')"
    using t1 t2 by (simp add: three_message_engine_simps(7) List.map_filter_simps)
  have r0: "map_of ?q ''response'' = Some (JStr ''No response received.'')"
    using t3 by (simp add: silent_engine_simps(7) List.map_filter_simps)
  from a b c o r3 r0 show ?thesis by blast
qed

lemma analyze_github_repo_app_send_raises:
  assumes "parse_github_url url = (Some ow, Some rp)"
    and "start_raises eng = None" "create_raises eng = None" "send_raises eng = Some e"
  shows "analyze_github_repo_app url t eng w =
     (Raises e, emit (Send (get_prompt (analysis_prompts_app ow rp) t (overview_prompt_app ow rp)))
        (emit On (emit (CreateSession ''gpt-4.1'') (emit ClientStart w))))"
  using assms truthy_parts [OF assms(1)]
  by (simp add: analyze_github_repo_app_def open_session_ok send_and_wait_send_raises text_of_def)

text \<open>
  The variant with \<open>try ... finally\<close>: once the session is open, on every path on which
  the coroutine ends (the send raises, the wait raises, or the idle event arrives) and
  on which destroy and stop return, the session is destroyed, then the client stopped,
  then \<open>cleanup_repo\<close> called on the workspace.
\<close>

lemma analyze_github_repo_tears_down:
  assumes "parse_github_url url = (Some ow, Some rp)"
    and "clone_repo ow rp w = (Inr p, w0)"
    and "start_raises eng = None" "create_raises eng = None"
    and "send_raises eng \<noteq> None \<or> wait_raises eng \<noteq> None \<or> SessionIdle \<in> set (events eng)"
    and "destroy_raises eng = None" "stop_raises eng = None"
  shows "\<exists>w2. snd (analyze_github_repo url t eng w) =
      cleanup_repo (Some p) (emit ClientStop (emit SessionDestroy w2))"
proof -
  let ?w1 = "emit On (emit (CreateSession ''gpt-4.1'') (emit ClientStart w0))"
  let ?prompt = "get_prompt (analysis_prompts ow rp p) t (overview_prompt ow rp p)"
  obtain b w2 where sw: "send_and_wait eng ?prompt ?w1 = (b, w2)"
    by (cases "send_and_wait eng ?prompt ?w1")
  have nh: "b \<noteq> Hangs" using send_and_wait_not_Hangs [OF assms(5), of ?prompt ?w1] sw by simp
  have "snd (analyze_github_repo url t eng w) =
      cleanup_repo (Some p) (emit ClientStop (emit SessionDestroy w2))"
    using assms(1-4,6,7) truthy_parts [OF assms(1)] sw nh
    by (cases b) (simp_all add: analyze_github_repo_def open_session_ok teardown_ok text_of_def)
  then show ?thesis by blast
qed

lemma analyze_github_repo_send_raises:
  assumes "parse_github_url url = (Some ow, Some rp)"
    and "fst (clone_repo ow rp w) = Inr p"
    and "start_raises eng = None" "create_raises eng = None" "send_raises eng = Some e"
    and "destroy_raises eng = None" "stop_raises eng = None"
  shows "fst (analyze_github_repo url t eng w) = Raises e"
proof -
  obtain w0 where "clone_repo ow rp w = (Inr p, w0)" using assms(2) by (cases "clone_repo ow rp w") simp
  then show ?thesis
    using assms truthy_parts [OF assms(1)]
    by (simp add: analyze_github_repo_def open_session_ok send_and_wait_send_raises teardown_ok
      text_of_def)
qed

lemma send_and_wait_wait_raises:
  "send_raises eng = None \<Longrightarrow> wait_raises eng = Some e \<Longrightarrow>
     send_and_wait eng prompt w = (Raises e, emit Wait (emit (Send prompt) w))"
  by (simp add: send_and_wait_def Let_def)

lemma analyze_github_repo_app_wait_raises:
  assumes "parse_github_url url = (Some ow, Some rp)"
    and "start_raises eng = None" "create_raises eng = None"
    and "send_raises eng = None" "wait_raises eng = Some e"
  shows "analyze_github_repo_app url t eng w =
     (Raises e, emit Wait
        (emit (Send (get_prompt (analysis_prompts_app ow rp) t (overview_prompt_app ow rp)))
           (emit On (emit (CreateSession ''gpt-4.1'') (emit ClientStart w)))))"
  using assms truthy_parts [OF assms(1)]
  by (simp add: analyze_github_repo_app_def open_session_ok send_and_wait_wait_raises text_of_def)

text \<open>
  Claim C1, on the inputs on which \<open>app.py\<close> departs from it: the reference parses, the
  session is open, and sending the instruction or awaiting the completion signal
  raises. The exception leaves \<open>analyze_github_repo\<close> of \<open>app.py\<close> at once: the run adds
  the start, the session, the handler, the send (and the wait) to the trace, and neither
  destroys the session nor stops the client.
\<close>

theorem app_teardown_skipped:
  assumes "parse_github_url url = (Some ow, Some rp)"
    and "start_raises eng = None" "create_raises eng = None"
    and "send_raises eng = Some e \<or> (send_raises eng = None \<and> wait_raises eng = Some e)"
  shows "fst (analyze_github_repo_app url t eng w) = Raises e \<and>
     SessionDestroy \<notin> set (added w (snd (analyze_github_repo_app url t eng w))) \<and>
     ClientStop \<notin> set (added w (snd (analyze_github_repo_app url t eng w)))"
  using assms(4)
proof
  assume "send_raises eng = Some e"
  note run = analyze_github_repo_app_send_raises [OF assms(1-3) this, of t w]
  show ?thesis unfolding run by (simp add: trace_emit added_def)
next
  assume "send_raises eng = None \<and> wait_raises eng = Some e"
  then have "send_raises eng = None" "wait_raises eng = Some e" by simp_all
  note run = analyze_github_repo_app_wait_raises [OF assms(1-3) this, of t w]
  show ?thesis unfolding run by (simp add: trace_emit added_def)
qed

theorem app_teardown_skipped_witness:
  "parse_github_url ''acme/widgets'' = (Some ''acme'', Some ''widgets'') \<and>
   send_raises failing_send_engine = Some (EngineError ''connection lost'') \<and>
   fst (analyze_github_repo_app ''acme/widgets'' ''overview'' failing_send_engine sample_world) =
     Raises (EngineError ''connection lost'') \<and>
   SessionDestroy \<notin> set (added sample_world (snd (analyze_github_repo_app ''acme/widgets''
       ''overview'' failing_send_engine sample_world))) \<and>
   ClientStop \<notin> set (added sample_world (snd (analyze_github_repo_app ''acme/widgets''
       ''overview'' failing_send_engine sample_world)))"
proof -
  have h: "send_raises failing_send_engine = Some (EngineError ''connection lost'') \<or>
      (send_raises failing_send_engine = None \<and>
       wait_raises failing_send_engine = Some (EngineError ''connection lost''))"
    by (simp add: failing_send_engine_simps)
  from app_teardown_skipped [OF ex_parse failing_send_engine_simps(1,2) h, of "''overview''"
      sample_world] ex_parse failing_send_engine_simps(3)
  show ?thesis by simp
qed

lemma analyze_with_simps:
  "repo_url_field req = None \<or> repo_url_field req = Some [] \<Longrightarrow>
     analyze_with run req eng w =
       (Some \<lparr>status = 400, body = [(''error'', JStr ''Repository URL is required'')]\<rparr>, w)"
  "repo_url_field req = Some u \<Longrightarrow> u \<noteq> [] \<Longrightarrow>
     run u (case type_field req of None \<Rightarrow> ''overview'' | Some t \<Rightarrow> t) eng w = (Returns r, w') \<Longrightarrow>
     analyze_with run req eng w = (Some \<lparr>status = 200, body = r\<rparr>, w')"
  "repo_url_field req = Some u \<Longrightarrow> u \<noteq> [] \<Longrightarrow>
     run u (case type_field req of None \<Rightarrow> ''overview'' | Some t \<Rightarrow> t) eng w = (Raises e, w') \<Longrightarrow>
     analyze_with run req eng w = (Some \<lparr>status = 500, body = [(''error'', JStr (str e))]\<rparr>, w')"
  by (auto simp: analyze_with_def Let_def)

lemma analyze_github_repo_invalid:
  "parse_github_url u = (None, None) \<Longrightarrow> analyze_github_repo u t eng w = (Returns invalid_url_result, w)"
  "parse_github_url u = (None, None) \<Longrightarrow> analyze_github_repo_app u t eng w = (Returns invalid_url_result, w)"
  by (simp_all add: analyze_github_repo_def analyze_github_repo_app_def truthy_def)

lemma analyze_github_repo_clone_failed:
  assumes "parse_github_url u = (Some ow, Some rp)" "clone_repo ow rp w = (Inl e, w0)"
  shows "analyze_github_repo u t eng w = (Returns (clone_failed_result e), w0)"
  using assms truthy_parts [OF assms(1)] by (simp add: analyze_github_repo_def text_of_def)

lemma analyze_error_field:
  assumes "fst (analyze req eng w) = Some resp"
  shows "map_of (body resp) ''error'' \<noteq> None \<longleftrightarrow> status resp \<noteq> 200"
proof (cases "repo_url_field req = None \<or> repo_url_field req = Some []")
  case True
  from analyze_with_simps(1) [OF True, of analyze_github_repo eng w] assms
  show ?thesis by (auto simp: analyze_def)
next
  case False
  then obtain u where u: "repo_url_field req = Some u" "u \<noteq> []" by auto
  let ?t = "case type_field req of None \<Rightarrow> ''overview'' | Some t \<Rightarrow> t"
  obtain out w' where run: "analyze_github_repo u ?t eng w = (out, w')"
    by (cases "analyze_github_repo u ?t eng w")
  show ?thesis
  proof (cases out)
    case (Returns r)
    from analyze_github_repo_Returns [OF run [unfolded Returns]] have "map_of r ''error'' = None"
      using payload_keys(1,3,5) by auto
    moreover from analyze_with_simps(2) [OF u, of analyze_github_repo, OF run [unfolded Returns]] assms
    have "resp = \<lparr>status = 200, body = r\<rparr>" by (simp add: analyze_def)
    ultimately show ?thesis by simp
  next
    case (Raises e)
    from analyze_with_simps(3) [OF u, of analyze_github_repo, OF run [unfolded Raises]] assms
    have "resp = \<lparr>status = 500, body = [(''error'', JStr (str e))]\<rparr>" by (simp add: analyze_def)
    then show ?thesis by simp
  next
    case Hangs
    with run u assms show ?thesis by (simp add: analyze_def analyze_with_def Let_def)
  qed
qed

text \<open>
  Claim C2, as the code has it. A missing or empty \<open>repo_url\<close> is answered with status
  400 and an \<open>error\<close> field, and an exception out of the orchestration with status 500
  and an \<open>error\<close> field holding its text. A reference that cannot be parsed and a failed
  acquisition are answered with status 200 and the payload \<open>response\<close>, \<open>events\<close>: the
  message is in \<open>response\<close>, the event list is empty, and there is no \<open>error\<close> field. In
  every response the \<open>error\<close> field is there exactly when the status is not 200.
\<close>

theorem analyze_failure_payloads:
  "(repo_url_field req = None \<or> repo_url_field req = Some [] \<longrightarrow>
      analyze req eng w =
        (Some \<lparr>status = 400, body = [(''error'', JStr ''Repository URL is required'')]\<rparr>, w)) \<and>
   (repo_url_field req = Some u \<and> u \<noteq> [] \<and>
    fst (analyze_github_repo u (case type_field req of None \<Rightarrow> ''overview'' | Some t \<Rightarrow> t) eng w)
      = Raises e \<longrightarrow>
      fst (analyze req eng w) = Some \<lparr>status = 500, body = [(''error'', JStr (str e))]\<rparr>) \<and>
   (repo_url_field req = Some u \<and> u \<noteq> [] \<and> parse_github_url u = (None, None) \<longrightarrow>
      analyze req eng w = (Some \<lparr>status = 200, body = invalid_url_result\<rparr>, w) \<and>
      analyze_app req eng w = (Some \<lparr>status = 200, body = invalid_url_result\<rparr>, w)) \<and>
   (repo_url_field req = Some u \<and> u \<noteq> [] \<and> parse_github_url u = (Some ow, Some rp) \<and>
    clone_repo ow rp w = (Inl x, w0) \<longrightarrow>
      analyze req eng w = (Some \<lparr>status = 200, body = clone_failed_result x\<rparr>, w0)) \<and>
   (fst (analyze req eng w) = Some resp \<longrightarrow>
      (map_of (body resp) ''error'' \<noteq> None \<longleftrightarrow> status resp \<noteq> 200))"
proof (intro conjI impI)
  assume "repo_url_field req = None \<or> repo_url_field req = Some []"
  then show "analyze req eng w =
        (Some \<lparr>status = 400, body = [(''error'', JStr ''Repository URL is required'')]\<rparr>, w)"
    unfolding analyze_def by (rule analyze_with_simps(1))
next
  let ?t = "case type_field req of None \<Rightarrow> ''overview'' | Some t \<Rightarrow> t"
  assume a: "repo_url_field req = Some u \<and> u \<noteq> [] \<and> fst (analyze_github_repo u ?t eng w) = Raises e"
  then have "analyze_github_repo u ?t eng w = (Raises e, snd (analyze_github_repo u ?t eng w))"
    by (simp add: prod_eq_iff)
  with a show "fst (analyze req eng w) = Some \<lparr>status = 500, body = [(''error'', JStr (str e))]\<rparr>"
    unfolding analyze_def using analyze_with_simps(3) [of req u analyze_github_repo eng w e]
    by simp
next
  assume a: "repo_url_field req = Some u \<and> u \<noteq> [] \<and> parse_github_url u = (None, None)"
  then show "analyze req eng w = (Some \<lparr>status = 200, body = invalid_url_result\<rparr>, w)"
    unfolding analyze_def
    using analyze_with_simps(2) [of req u analyze_github_repo eng w invalid_url_result w]
      analyze_github_repo_invalid(1) by simp
  from a show "analyze_app req eng w = (Some \<lparr>status = 200, body = invalid_url_result\<rparr>, w)"
    unfolding analyze_app_def
    using analyze_with_simps(2) [of req u analyze_github_repo_app eng w invalid_url_result w]
      analyze_github_repo_invalid(2) by simp
next
  assume a: "repo_url_field req = Some u \<and> u \<noteq> [] \<and> parse_github_url u = (Some ow, Some rp) \<and>
    clone_repo ow rp w = (Inl x, w0)"
  then show "analyze req eng w = (Some \<lparr>status = 200, body = clone_failed_result x\<rparr>, w0)"
    unfolding analyze_def
    using analyze_with_simps(2) [of req u analyze_github_repo eng w "clone_failed_result x" w0]
      analyze_github_repo_clone_failed [of u ow rp w x w0] by simp
next
  assume "fst (analyze req eng w) = Some resp"
  then show "map_of (body resp) ''error'' \<noteq> None \<longleftrightarrow> status resp \<noteq> 200"
    by (rule analyze_error_field)
qed

lemma clone_no_such_repo:
  "clone_repo ''acme'' ''widgets'' no_such_repo_world =
     (Inl (Exception ''Failed to clone repository: fatal: repository not found''),
      snd (clone_repo ''acme'' ''widgets'' no_such_repo_world))"
proof -
  let ?n = "clone_attempt ''acme'' ''widgets'' no_such_repo_world"
  have "?n = (Inr ''fatal: repository not found'', snd ?n)"
    using clone_attempt_no_such_repo(1) by (simp add: prod_eq_iff)
  moreover have "repo_path_of no_such_repo_world ''widgets'' \<notin> present (snd ?n)"
    using clone_attempt_no_such_repo(2) by (simp add: sample_paths)
  ultimately have "clone_repo ''acme'' ''widgets'' no_such_repo_world =
      (Inl (Exception (''Failed to clone repository: '' @ ''fatal: repository not found'')), snd ?n)"
    by (rule clone_repo_absent)
  then show ?thesis by simp
qed

theorem analyze_failure_payloads_counterexample:
  "fst (analyze \<lparr>repo_url_field = Some ''not a url'', type_field = None\<rparr>
        sample_engine sample_world) =
     Some \<lparr>status = 200, body = invalid_url_result\<rparr> \<and>
   map_of invalid_url_result ''error'' = None \<and>
   fst (analyze \<lparr>repo_url_field = Some ''acme/widgets'', type_field = None\<rparr>
        sample_engine no_such_repo_world) =
     Some \<lparr>status = 200, body = clone_failed_result
        (Exception ''Failed to clone repository: fatal: repository not found'')\<rparr> \<and>
   map_of (clone_failed_result
        (Exception ''Failed to clone repository: fatal: repository not found'')) ''error'' = None"
proof -
  have a: "analyze_github_repo ''not a url'' ''overview'' sample_engine sample_world =
      (Returns invalid_url_result, sample_world)"
    using ex_parse_bad by (rule analyze_github_repo_invalid(1))
  have b: "analyze_github_repo ''acme/widgets'' ''overview'' sample_engine no_such_repo_world =
      (Returns (clone_failed_result
         (Exception ''Failed to clone repository: fatal: repository not found'')),
       snd (clone_repo ''acme'' ''widgets'' no_such_repo_world))"
    using ex_parse clone_no_such_repo by (rule analyze_github_repo_clone_failed)
  show ?thesis
    using a b by (simp add: analyze_def analyze_with_def payload_keys)
qed

theorem analyze_failure_payloads_witness:
  "repo_url_field \<lparr>repo_url_field = None, type_field = None\<rparr> = None \<and>
   analyze \<lparr>repo_url_field = None, type_field = None\<rparr> sample_engine sample_world =
     (Some \<lparr>status = 400, body = [(''error'', JStr ''Repository URL is required'')]\<rparr>,
      sample_world) \<and>
   fst (analyze_github_repo ''acme/widgets'' ''overview'' failing_send_engine sample_world) =
     Raises (EngineError ''connection lost'') \<and>
   fst (analyze \<lparr>repo_url_field = Some ''acme/widgets'', type_field = None\<rparr>
        failing_send_engine sample_world) =
     Some \<lparr>status = 500, body = [(''error'', JStr ''connection lost'')]\<rparr> \<and>
   parse_github_url ''not a url'' = (None, None) \<and>
   analyze \<lparr>repo_url_field = Some ''not a url'', type_field = None\<rparr> sample_engine sample_world =
     (Some \<lparr>status = 200, body = invalid_url_result\<rparr>, sample_world) \<and>
   analyze_app \<lparr>repo_url_field = Some ''not a url'', type_field = None\<rparr> sample_engine
       sample_world =
     (Some \<lparr>status = 200, body = invalid_url_result\<rparr>, sample_world) \<and>
   map_of invalid_url_result ''error'' = None \<and>
   fst (clone_repo ''acme'' ''widgets'' no_such_repo_world) =
     Inl (Exception ''Failed to clone repository: fatal: repository not found'') \<and>
   fst (analyze \<lparr>repo_url_field = Some ''acme/widgets'', type_field = None\<rparr> sample_engine
       no_such_repo_world) =
     Some \<lparr>status = 200, body = clone_failed_result
        (Exception ''Failed to clone repository: fatal: repository not found'')\<rparr>"
proof -
  let ?none = "\<lparr>repo_url_field = None, type_field = None\<rparr>"
  let ?bad = "\<lparr>repo_url_field = Some ''not a url'', type_field = None\<rparr>"
  let ?ok = "\<lparr>repo_url_field = Some ''acme/widgets'', type_field = None\<rparr>"
  let ?x = "Exception ''Failed to clone repository: fatal: repository not found''"
  have raises: "fst (analyze_github_repo ''acme/widgets'' ''overview'' failing_send_engine
      sample_world) = Raises (EngineError ''connection lost'')"
    by (rule analyze_github_repo_send_raises [OF ex_parse clone_sample])
       (simp_all add: failing_send_engine_simps)
  note t1 = analyze_failure_payloads [of ?none sample_engine sample_world]
  note t2 = analyze_failure_payloads [of ?ok failing_send_engine sample_world "''acme/widgets''"
      "EngineError ''connection lost''"]
  note t3 = analyze_failure_payloads [of ?bad sample_engine sample_world "''not a url''" _ _ _ _ _
      "\<lparr>status = 200, body = invalid_url_result\<rparr>"]
  note t4 = analyze_failure_payloads [of ?ok sample_engine no_such_repo_world "''acme/widgets''" _
      "''acme''" "''widgets''" ?x "snd (clone_repo ''acme'' ''widgets'' no_such_repo_world)"]
  have c1: "analyze ?none sample_engine sample_world =
     (Some \<lparr>status = 400, body = [(''error'', JStr ''Repository URL is required'')]\<rparr>,
      sample_world)" using t1 by simp
  have c2: "fst (analyze ?ok failing_send_engine sample_world) =
     Some \<lparr>status = 500, body = [(''error'', JStr ''connection lost'')]\<rparr>"
    using t2 raises by simp
  have c3: "analyze ?bad sample_engine sample_world =
     (Some \<lparr>status = 200, body = invalid_url_result\<rparr>, sample_world)"
    "analyze_app ?bad sample_engine sample_world =
     (Some \<lparr>status = 200, body = invalid_url_result\<rparr>, sample_world)"
    using t3 ex_parse_bad by simp_all
  have c5: "map_of invalid_url_result ''error'' = None" using t3 c3(1) by simp
  have c4: "fst (analyze ?ok sample_engine no_such_repo_world) =
     Some \<lparr>status = 200, body = clone_failed_result ?x\<rparr>"
    using t4 ex_parse clone_no_such_repo by simp
  have c6: "fst (clone_repo ''acme'' ''widgets'' no_such_repo_world) = Inl ?x"
    using clone_no_such_repo by (simp add: prod_eq_iff)
  from c1 c2 c3 c4 c5 c6 raises ex_parse_bad show ?thesis by simp
qed

end
